theory Spec2Isabelle
  imports Main "HOL-Library.Sublist"
begin

section \<open>Task (models/Task.ts)\<close>

text \<open>
  A JavaScript \<open>number\<close> that holds minutes is modelled as an unbounded \<open>int\<close>
  (fractions, NaN and infinities are outside the model). A string is the byte list of
  its UTF-8 encoding. The TypeScript type \<open>Priority\<close> is a union of
  string literals, and \<open>editTask\<close> accepts \<open>priority: any\<close>, so the field is a string.
  Every slot of the task array holds an object of its own (the factory, \<open>fromJSON\<close> and
  \<open>editTask\<close> all allocate), so the array is a list of values.
\<close>

record Task =
  id' :: string
  title :: string
  description :: "string option"
  startMinutes :: int
  endMinutes :: int
  priority :: string
  completed :: bool
  createdAt :: int

text \<open>\<open>Number.prototype.toString\<close> on an integer, \<open>padStart\<close>, and the remainder
  operator \<open>%\<close>, whose result takes the sign of the dividend.\<close>

fun natToString :: "nat \<Rightarrow> string" where
  "natToString n =
     (if n < 10 then [''0123456789'' ! n]
      else natToString (n div 10) @ [''0123456789'' ! (n mod 10)])"

declare natToString.simps [simp del]

definition numberToString :: "int \<Rightarrow> string" where
  "numberToString n = (if n < 0 then CHR ''-'' # natToString (nat (- n)) else natToString (nat n))"

definition padStart :: "nat \<Rightarrow> char \<Rightarrow> string \<Rightarrow> string" where
  "padStart n c s = replicate (n - length s) c @ s"

definition jsRem :: "int \<Rightarrow> int \<Rightarrow> int" where
  "jsRem a b = sgn a * (\<bar>a\<bar> mod \<bar>b\<bar>)"

definition minutesToHHMM :: "int \<Rightarrow> string" where
  "minutesToHHMM mins =
     padStart 2 CHR ''0'' (numberToString (mins div 60)) @ '':'' @
     padStart 2 CHR ''0'' (numberToString (jsRem mins 60))"

definition getStartHHMM :: "Task \<Rightarrow> string" where
  "getStartHHMM t = minutesToHHMM (startMinutes t)"

definition getEndHHMM :: "Task \<Rightarrow> string" where
  "getEndHHMM t = minutesToHHMM (endMinutes t)"

section \<open>String helpers of the runtime\<close>

text \<open>
  A JavaScript string is modelled by its UTF-8 encoding (a string with a lone surrogate
  has none and is outside the model). Equality and concatenation of strings are those of
  the byte lists; every string literal of the source is ASCII, and \<open>padStart\<close> above is
  applied to decimal numerals only, where bytes and code units count the same.

  \<open>String.prototype.trim\<close> removes from both ends the code points that ECMAScript calls
  WhiteSpace and LineTerminator: U+0009 to U+000D, U+0020, U+00A0, U+1680, U+2000 to
  U+200A, U+2028, U+2029, U+202F, U+205F, U+3000 and U+FEFF. \<open>whiteSpaceUtf8\<close> lists
  their encodings, in this order.
\<close>

definition whiteSpaceUtf8 :: "string list" where
  "whiteSpaceUtf8 =
     [[CHR 0x09], [CHR 0x0A], [CHR 0x0B], [CHR 0x0C], [CHR 0x0D], [CHR 0x20],
      [CHR 0xC2, CHR 0xA0],
      [CHR 0xE1, CHR 0x9A, CHR 0x80],
      [CHR 0xE2, CHR 0x80, CHR 0x80], [CHR 0xE2, CHR 0x80, CHR 0x81],
      [CHR 0xE2, CHR 0x80, CHR 0x82], [CHR 0xE2, CHR 0x80, CHR 0x83],
      [CHR 0xE2, CHR 0x80, CHR 0x84], [CHR 0xE2, CHR 0x80, CHR 0x85],
      [CHR 0xE2, CHR 0x80, CHR 0x86], [CHR 0xE2, CHR 0x80, CHR 0x87],
      [CHR 0xE2, CHR 0x80, CHR 0x88], [CHR 0xE2, CHR 0x80, CHR 0x89],
      [CHR 0xE2, CHR 0x80, CHR 0x8A],
      [CHR 0xE2, CHR 0x80, CHR 0xA8], [CHR 0xE2, CHR 0x80, CHR 0xA9],
      [CHR 0xE2, CHR 0x80, CHR 0xAF],
      [CHR 0xE2, CHR 0x81, CHR 0x9F],
      [CHR 0xE3, CHR 0x80, CHR 0x80],
      [CHR 0xEF, CHR 0xBB, CHR 0xBF]]"

text \<open>The white-space code point that stands first, or last, in a string, if any.\<close>

definition leadingWhiteSpace :: "string \<Rightarrow> string option" where
  "leadingWhiteSpace s = find (\<lambda>w. prefix w s) whiteSpaceUtf8"

definition trailingWhiteSpace :: "string \<Rightarrow> string option" where
  "trailingWhiteSpace s = find (\<lambda>w. suffix w s) whiteSpaceUtf8"

function trimStart :: "string \<Rightarrow> string" where
  "trimStart s =
     (case leadingWhiteSpace s of
        None \<Rightarrow> s
      | Some w \<Rightarrow> trimStart (drop (length w) s))"
  by pat_completeness auto
termination
proof (relation "measure length")
  show "wf (measure length)" by simp
next
  fix s w assume "leadingWhiteSpace s = Some w"
  then have "w \<in> set whiteSpaceUtf8" and p: "prefix w s"
    by (auto simp add: leadingWhiteSpace_def find_Some_iff)
  then have "w \<noteq> []" by (auto simp add: whiteSpaceUtf8_def)
  with p have "length (drop (length w) s) < length s"
    by (cases s) (auto simp add: prefix_def)
  then show "(drop (length w) s, s) \<in> measure length" by simp
qed

function trimEnd :: "string \<Rightarrow> string" where
  "trimEnd s =
     (case trailingWhiteSpace s of
        None \<Rightarrow> s
      | Some w \<Rightarrow> trimEnd (take (length s - length w) s))"
  by pat_completeness auto
termination
proof (relation "measure length")
  show "wf (measure length)" by simp
next
  fix s w assume "trailingWhiteSpace s = Some w"
  then have "w \<in> set whiteSpaceUtf8" and p: "suffix w s"
    by (auto simp add: trailingWhiteSpace_def find_Some_iff)
  then have "w \<noteq> []" by (auto simp add: whiteSpaceUtf8_def)
  with p have "length (take (length s - length w) s) < length s"
    by (cases s) (auto simp add: suffix_def)
  then show "(take (length s - length w) s, s) \<in> measure length" by simp
qed

declare trimStart.simps [simp del] trimEnd.simps [simp del]

definition trim :: "string \<Rightarrow> string" where
  "trim s = trimEnd (trimStart s)"

text \<open>
  \<open>String.prototype.toLowerCase\<close> is the runtime's Unicode case mapping, a table that
  is no code of the repository: every function that calls it takes it as its first
  argument, \<open>toLowerCase\<close>. On a string of ASCII characters it replaces A to Z by a to z
  and keeps every other character, which is \<open>asciiToLowerCase\<close>, and it maps no string
  but the empty one to the empty string: \<open>runtime_toLowerCase\<close> states both, and the
  proofs use nothing else of it.
\<close>

definition isAscii :: "char \<Rightarrow> bool" where
  "isAscii c = ((of_char c :: nat) < 128)"

definition toLowerChar :: "char \<Rightarrow> char" where
  "toLowerChar c =
     (if 65 \<le> (of_char c :: nat) \<and> (of_char c :: nat) \<le> 90
      then char_of ((of_char c :: nat) + 32) else c)"

definition asciiToLowerCase :: "string \<Rightarrow> string" where
  "asciiToLowerCase s = map toLowerChar s"

definition runtime_toLowerCase :: "(string \<Rightarrow> string) \<Rightarrow> bool" where
  "runtime_toLowerCase toLowerCase =
     ((\<forall>x. (toLowerCase x = []) = (x = [])) \<and>
      (\<forall>x. list_all isAscii x \<longrightarrow> toLowerCase x = asciiToLowerCase x))"

section \<open>ScheduleManager (managers/ScheduleManager.ts)\<close>

text \<open>
  The manager's fields are \<open>tasks\<close> and \<open>observers\<close>. Its effects on the outside are
  recorded in three traces: \<open>delivered\<close> holds every call \<open>o.update(msg)\<close> made by
  \<open>notify\<close> (a throwing observer is swallowed, so the call is all that counts),
  \<open>saved\<close> holds the snapshot of every \<open>Storage.saveTasks\<close>, and \<open>logged\<close> every
  \<open>Logger.info\<close> line. File-system failures are outside the model.
\<close>

type_synonym Observer = nat

record ScheduleManager =
  tasks :: "Task list"
  observers :: "Observer list"
  delivered :: "(Observer \<times> string) list"
  saved :: "Task list list"
  logged :: "string list"

record Result =
  success :: bool
  message :: string

definition subscribe :: "ScheduleManager \<Rightarrow> Observer \<Rightarrow> ScheduleManager" where
  "subscribe s obs = s\<lparr>observers := observers s @ [obs]\<rparr>"

definition unsubscribe :: "ScheduleManager \<Rightarrow> Observer \<Rightarrow> ScheduleManager" where
  "unsubscribe s obs = s\<lparr>observers := filter (\<lambda>o'. o' \<noteq> obs) (observers s)\<rparr>"

definition notify :: "ScheduleManager \<Rightarrow> string \<Rightarrow> ScheduleManager" where
  "notify s msg = s\<lparr>delivered := delivered s @ map (\<lambda>o'. (o', msg)) (observers s)\<rparr>"

definition Logger_info :: "ScheduleManager \<Rightarrow> string \<Rightarrow> ScheduleManager" where
  "Logger_info s msg = s\<lparr>logged := logged s @ [msg]\<rparr>"

definition Storage_saveTasks :: "ScheduleManager \<Rightarrow> ScheduleManager" where
  "Storage_saveTasks s = s\<lparr>saved := saved s @ [tasks s]\<rparr>"

text \<open>The binary search of \<open>findInsertIndex\<close>. Started with \<open>high = length\<close>, every
  index it reads satisfies \<open>mid < high \<le> length\<close>.\<close>

function findInsertIndex_loop :: "Task list \<Rightarrow> int \<Rightarrow> nat \<Rightarrow> nat \<Rightarrow> nat" where
  "findInsertIndex_loop ts target low high =
     (if low < high then
        (if startMinutes (ts ! ((low + high) div 2)) < target
         then findInsertIndex_loop ts target ((low + high) div 2 + 1) high
         else findInsertIndex_loop ts target low ((low + high) div 2))
      else low)"
  by pat_completeness auto
termination
  by (relation "measure (\<lambda>(ts, target, low, high). high - low)") auto

declare findInsertIndex_loop.simps [simp del]

definition findInsertIndex :: "Task list \<Rightarrow> int \<Rightarrow> nat" where
  "findInsertIndex ts target = findInsertIndex_loop ts target 0 (length ts)"

definition overlaps :: "int \<Rightarrow> int \<Rightarrow> int \<Rightarrow> int \<Rightarrow> bool" where
  "overlaps aStart aEnd bStart bEnd = (aStart < bEnd \<and> bStart < aEnd)"

definition addConflictMsg :: "Task \<Rightarrow> string" where
  \<open>addConflictMsg n =
     ''Task conflicts with existing task "'' @ title n @ ''" ('' @
     getStartHHMM n @ ''-'' @ getEndHHMM n @ '').''\<close>

definition addedMsg :: "Task \<Rightarrow> string" where
  "addedMsg t =
     ''Task added: '' @ title t @ '' ('' @ getStartHHMM t @ ''-'' @ getEndHHMM t @ '')''"

definition addTask_conflict :: "ScheduleManager \<Rightarrow> Task \<Rightarrow> Result \<times> ScheduleManager" where
  "addTask_conflict s n =
     (let msg = addConflictMsg n;
          s1 = notify s msg;
          s2 = Logger_info s1 (''Add conflict: '' @ msg)
      in (\<lparr>success = False, message = msg\<rparr>, s2))"

definition addTask :: "ScheduleManager \<Rightarrow> Task \<Rightarrow> Result \<times> ScheduleManager" where
  "addTask s task =
     (let idx = findInsertIndex (tasks s) (startMinutes task) in
      if int idx - 1 \<ge> 0 \<and>
         overlaps (startMinutes (tasks s ! (idx - 1))) (endMinutes (tasks s ! (idx - 1)))
                  (startMinutes task) (endMinutes task)
      then addTask_conflict s (tasks s ! (idx - 1))
      else if idx < length (tasks s) \<and>
         overlaps (startMinutes (tasks s ! idx)) (endMinutes (tasks s ! idx))
                  (startMinutes task) (endMinutes task)
      then addTask_conflict s (tasks s ! idx)
      else
        (let s1 = s\<lparr>tasks := take idx (tasks s) @ task # drop idx (tasks s)\<rparr>;
             s2 = Storage_saveTasks s1;
             s3 = Logger_info s2 (addedMsg task);
             s4 = notify s3 (addedMsg task)
         in (\<lparr>success = True, message = ''Task added successfully.''\<rparr>, s4)))"

definition listTasks :: "ScheduleManager \<Rightarrow> Task list" where
  "listTasks s = tasks s"

definition listTasksByPriority ::
  "(string \<Rightarrow> string) \<Rightarrow> ScheduleManager \<Rightarrow> string \<Rightarrow> Task list" where
  "listTasksByPriority toLowerCase s p =
     (let pNormalized = toLowerCase (trim p) in
      if pNormalized = [] then []
      else filter (\<lambda>t. toLowerCase (priority t) = pNormalized) (tasks s))"

definition findTasksByTitle ::
  "(string \<Rightarrow> string) \<Rightarrow> ScheduleManager \<Rightarrow> string \<Rightarrow> Task list" where
  "findTasksByTitle toLowerCase s ttl =
     (let q = toLowerCase (trim ttl) in filter (\<lambda>t. toLowerCase (title t) = q) (tasks s))"

definition findTaskById :: "ScheduleManager \<Rightarrow> string \<Rightarrow> Task option" where
  "findTaskById s i = find (\<lambda>t. id' t = i) (tasks s)"

text \<open>\<open>Array.prototype.findIndex\<close>: the first index whose element satisfies the
  predicate; \<open>None\<close> stands for the source's \<open>-1\<close>.\<close>

fun findIndex :: "('a \<Rightarrow> bool) \<Rightarrow> 'a list \<Rightarrow> nat option" where
  "findIndex P [] = None"
| "findIndex P (x # xs) =
     (if P x then Some 0 else (case findIndex P xs of None \<Rightarrow> None | Some k \<Rightarrow> Some (Suc k)))"

definition removeTaskById :: "ScheduleManager \<Rightarrow> string \<Rightarrow> Result \<times> ScheduleManager" where
  "removeTaskById s i =
     (case findIndex (\<lambda>t. id' t = i) (tasks s) of
        None \<Rightarrow>
          (\<lparr>success = False, message = ''Error: Task not found.''\<rparr>,
           Logger_info s ''Error: Task not found.'')
      | Some idx \<Rightarrow>
          (let removed = tasks s ! idx;
               s1 = s\<lparr>tasks := take idx (tasks s) @ drop (Suc idx) (tasks s)\<rparr>;
               s2 = Storage_saveTasks s1;
               s3 = Logger_info s2 (''Task removed: '' @ title removed);
               s4 = notify s3 (''Task removed: '' @ title removed)
           in (\<lparr>success = True, message = ''Task removed successfully.''\<rparr>, s4)))"

text \<open>The sparse update set of \<open>editTask\<close>: an absent (or null) field is \<open>None\<close>, and
  \<open>a ?? b\<close> is \<open>nullish a b\<close>.\<close>

record Updates =
  u_title :: "string option"
  u_startMinutes :: "int option"
  u_endMinutes :: "int option"
  u_priority :: "string option"
  u_description :: "string option"

definition nullish :: "'a option \<Rightarrow> 'a \<Rightarrow> 'a" where
  "nullish a b = (case a of None \<Rightarrow> b | Some v \<Rightarrow> v)"

definition updatedCopy :: "Task \<Rightarrow> Updates \<Rightarrow> Task" where
  "updatedCopy original updates =
     \<lparr>id' = id' original,
      title = nullish (u_title updates) (title original),
      description =
        (case u_description updates of None \<Rightarrow> description original | Some d \<Rightarrow> Some d),
      startMinutes = nullish (u_startMinutes updates) (startMinutes original),
      endMinutes = nullish (u_endMinutes updates) (endMinutes original),
      priority = nullish (u_priority updates) (priority original),
      completed = completed original,
      createdAt = createdAt original\<rparr>"

text \<open>The binary search written inline in \<open>editTask\<close>, over the copy \<open>arr\<close>.\<close>

function editTask_insertIdx_loop :: "Task list \<Rightarrow> int \<Rightarrow> nat \<Rightarrow> nat \<Rightarrow> nat" where
  "editTask_insertIdx_loop arr target low high =
     (if low < high then
        (if startMinutes (arr ! ((low + high) div 2)) < target
         then editTask_insertIdx_loop arr target ((low + high) div 2 + 1) high
         else editTask_insertIdx_loop arr target low ((low + high) div 2))
      else low)"
  by pat_completeness auto
termination
  by (relation "measure (\<lambda>(arr, target, low, high). high - low)") auto

declare editTask_insertIdx_loop.simps [simp del]

definition editTask_insertIdx :: "Task list \<Rightarrow> Task \<Rightarrow> nat" where
  "editTask_insertIdx arr updated =
     editTask_insertIdx_loop arr (startMinutes updated) 0 (length arr)"

definition editConflictMsg :: "Task \<Rightarrow> string" where
  \<open>editConflictMsg n = ''Edit conflicts with existing task "'' @ title n @ ''".''\<close>

definition editTask_conflict :: "ScheduleManager \<Rightarrow> Task \<Rightarrow> Result \<times> ScheduleManager" where
  "editTask_conflict s n =
     (let msg = editConflictMsg n;
          s1 = Logger_info s (''Edit conflict: '' @ msg);
          s2 = notify s1 msg
      in (\<lparr>success = False, message = msg\<rparr>, s2))"

definition editTask :: "ScheduleManager \<Rightarrow> string \<Rightarrow> Updates \<Rightarrow> Result \<times> ScheduleManager" where
  "editTask s i updates =
     (case findIndex (\<lambda>t. id' t = i) (tasks s) of
        None \<Rightarrow> (\<lparr>success = False, message = ''Task not found.''\<rparr>, s)
      | Some idx \<Rightarrow>
          (let original = tasks s ! idx;
               updated = updatedCopy original updates;
               arr = take idx (tasks s) @ drop (Suc idx) (tasks s);
               insertIdx = editTask_insertIdx arr updated
           in
             if int insertIdx - 1 \<ge> 0 \<and>
                overlaps (startMinutes (arr ! (insertIdx - 1))) (endMinutes (arr ! (insertIdx - 1)))
                         (startMinutes updated) (endMinutes updated)
             then editTask_conflict s (arr ! (insertIdx - 1))
             else if insertIdx < length arr \<and>
                overlaps (startMinutes (arr ! insertIdx)) (endMinutes (arr ! insertIdx))
                         (startMinutes updated) (endMinutes updated)
             then editTask_conflict s (arr ! insertIdx)
             else
               (let s1 = s\<lparr>tasks := take insertIdx arr @ updated # drop insertIdx arr\<rparr>;
                    s2 = Storage_saveTasks s1;
                    s3 = Logger_info s2 (''Task edited: '' @ title updated);
                    s4 = notify s3 (''Task edited: '' @ title updated)
                in (\<lparr>success = True, message = ''Task edited successfully.''\<rparr>, s4))))"

text \<open>\<open>markCompleted\<close> takes the first task with the id (\<open>Array.prototype.find\<close>) and
  sets its flag in place.\<close>

definition markCompleted :: "ScheduleManager \<Rightarrow> string \<Rightarrow> Result \<times> ScheduleManager" where
  "markCompleted s i =
     (case findIndex (\<lambda>x. id' x = i) (tasks s) of
        None \<Rightarrow> (\<lparr>success = False, message = ''Task not found.''\<rparr>, s)
      | Some idx \<Rightarrow>
          (let t = tasks s ! idx;
               s1 = s\<lparr>tasks := (tasks s)[idx := t\<lparr>completed := True\<rparr>]\<rparr>;
               s2 = Storage_saveTasks s1;
               s3 = Logger_info s2 (''Task completed: '' @ title t);
               s4 = notify s3 (''Task completed: '' @ title t)
           in (\<lparr>success = True, message = ''Task marked as completed.''\<rparr>, s4)))"

text \<open>
  \<open>Storage.loadTasks\<close> yields the persisted records, or the empty list when the file is
  missing or corrupt (\<open>None\<close>). \<open>load\<close> sorts what it got with the comparator
  \<open>a.startMinutes - b.startMinutes\<close>; \<open>Array.prototype.sort\<close> is stable, as
  \<open>sort_key\<close> is. The argument of \<open>load\<close> is the outcome of the awaited call: \<open>Inl\<close> is
  a rejection, which the \<open>catch\<close> turns into the empty schedule.
\<close>

definition Storage_loadTasks :: "Task list option \<Rightarrow> unit + Task list" where
  "Storage_loadTasks file = (case file of None \<Rightarrow> Inr [] | Some arr \<Rightarrow> Inr arr)"

definition load :: "ScheduleManager \<Rightarrow> unit + Task list \<Rightarrow> ScheduleManager" where
  "load s r =
     (case r of
        Inr arr \<Rightarrow> Logger_info (s\<lparr>tasks := sort_key startMinutes arr\<rparr>) ''Tasks loaded from storage.''
      | Inl e \<Rightarrow> s\<lparr>tasks := []\<rparr>)"

definition newScheduleManager :: ScheduleManager where
  "newScheduleManager = \<lparr>tasks = [], observers = [], delivered = [], saved = [], logged = []\<rparr>"

definition getInstance :: "unit + Task list \<Rightarrow> ScheduleManager" where
  "getInstance r = load newScheduleManager r"

section \<open>TaskFactory and parseTimeToMinutes (factories/TaskFactory.ts, utils/timeUtils.ts)\<close>

datatype error = InvalidTimeFormat | InvalidTime | EndNotAfterStart | InvalidPriority

definition isDigit :: "char \<Rightarrow> bool" where
  "isDigit c = (48 \<le> (of_char c :: nat) \<and> (of_char c :: nat) \<le> 57)"

text \<open>\<open>parseInt(s, 10)\<close> on a string of decimal digits.\<close>

definition parseInt10 :: "string \<Rightarrow> int" where
  "parseInt10 s = foldl (\<lambda>acc c. acc * 10 + (int (of_char c) - 48)) 0 s"

text \<open>The test \<open>/^\d{1,2}:\d{2}$/\<close>: one or two digits, a colon, two digits. A digit is
  not a colon, so the hour part is what stands before the first colon.\<close>

definition matchesHHmm :: "string \<Rightarrow> bool" where
  "matchesHHmm time =
     (let hs = takeWhile (\<lambda>c. c \<noteq> CHR '':'') time;
          rest = dropWhile (\<lambda>c. c \<noteq> CHR '':'') time
      in (length hs = 1 \<or> length hs = 2) \<and> list_all isDigit hs \<and>
         length rest = 3 \<and> list_all isDigit (tl rest))"

definition parseTimeToMinutes :: "string \<Rightarrow> error + int" where
  "parseTimeToMinutes time =
     (if \<not> matchesHHmm time then Inl InvalidTimeFormat
      else
        (let h = parseInt10 (takeWhile (\<lambda>c. c \<noteq> CHR '':'') time);
             m = parseInt10 (tl (dropWhile (\<lambda>c. c \<noteq> CHR '':'') time))
         in if h < 0 \<or> h > 23 \<or> m < 0 \<or> m > 59 then Inl InvalidTime
            else Inr (h * 60 + m)))"

definition parsePriority :: "(string \<Rightarrow> string) \<Rightarrow> string \<Rightarrow> error + string" where
  "parsePriority toLowerCase s =
     (let normalized = toLowerCase (trim s) in
      if normalized = ''high'' then Inr ''High''
      else if normalized = ''medium'' then Inr ''Medium''
      else if normalized = ''low'' then Inr ''Low''
      else Inl InvalidPriority)"

text \<open>\<open>TaskFactory.create\<close>. Besides \<open>toLowerCase\<close>, the clock and the random source
  are arguments: \<open>now\<close> is the \<open>Date.now()\<close> of the id, \<open>rnd\<close> is \<open>Math.floor(Math.random() * 10000)\<close>, and
  \<open>created\<close> is the \<open>Date.now()\<close> of the constructor's default \<open>createdAt\<close>.\<close>

definition TaskFactory_create ::
  "(string \<Rightarrow> string) \<Rightarrow> int \<Rightarrow> int \<Rightarrow> int \<Rightarrow> string \<Rightarrow> string \<Rightarrow> string \<Rightarrow> string \<Rightarrow>
   string option \<Rightarrow> error + Task" where
  "TaskFactory_create toLowerCase now rnd created ttl startHHMM endHHMM prio desc =
     (case parseTimeToMinutes startHHMM of
        Inl e \<Rightarrow> Inl e
      | Inr start \<Rightarrow>
         (case parseTimeToMinutes endHHMM of
            Inl e \<Rightarrow> Inl e
          | Inr end' \<Rightarrow>
             if end' \<le> start then Inl EndNotAfterStart
             else
               (case parsePriority toLowerCase prio of
                  Inl e \<Rightarrow> Inl e
                | Inr p \<Rightarrow>
                    Inr \<lparr>id' = numberToString now @ ''-'' @ numberToString rnd,
                         title = trim ttl,
                         description = map_option trim desc,
                         startMinutes = start,
                         endMinutes = end',
                         priority = p,
                         completed = False,
                         createdAt = created\<rparr>)))"

section \<open>Sequences of calls and the schedule's invariants\<close>

datatype Op =
    OpAdd Task
  | OpEdit string Updates
  | OpRemove string
  | OpComplete string
  | OpSubscribe Observer
  | OpUnsubscribe Observer

fun apply_op :: "ScheduleManager \<Rightarrow> Op \<Rightarrow> ScheduleManager" where
  "apply_op s (OpAdd t) = snd (addTask s t)"
| "apply_op s (OpEdit i u) = snd (editTask s i u)"
| "apply_op s (OpRemove i) = snd (removeTaskById s i)"
| "apply_op s (OpComplete i) = snd (markCompleted s i)"
| "apply_op s (OpSubscribe ob) = subscribe s ob"
| "apply_op s (OpUnsubscribe ob) = unsubscribe s ob"

fun op_succeeds :: "ScheduleManager \<Rightarrow> Op \<Rightarrow> bool" where
  "op_succeeds s (OpAdd t) = success (fst (addTask s t))"
| "op_succeeds s (OpEdit i u) = success (fst (editTask s i u))"
| "op_succeeds s (OpRemove i) = success (fst (removeTaskById s i))"
| "op_succeeds s (OpComplete i) = success (fst (markCompleted s i))"
| "op_succeeds s (OpSubscribe ob) = True"
| "op_succeeds s (OpUnsubscribe ob) = True"

fun run :: "ScheduleManager \<Rightarrow> Op list \<Rightarrow> ScheduleManager" where
  "run s [] = s"
| "run s (c # cs) = run (apply_op s c) cs"

fun all_succeed :: "ScheduleManager \<Rightarrow> Op list \<Rightarrow> bool" where
  "all_succeed s [] = True"
| "all_succeed s (c # cs) = (op_succeeds s c \<and> all_succeed (apply_op s c) cs)"

text \<open>Every task handed to \<open>addTask\<close> in the sequence ends after it starts.\<close>

fun adds_positive :: "Op list \<Rightarrow> bool" where
  "adds_positive [] = True"
| "adds_positive (OpAdd t # cs) = (startMinutes t < endMinutes t \<and> adds_positive cs)"
| "adds_positive (c # cs) = adds_positive cs"

text \<open>Every candidate that \<open>editTask\<close> builds along the sequence ends after it starts.\<close>

fun edits_positive :: "ScheduleManager \<Rightarrow> Op list \<Rightarrow> bool" where
  "edits_positive s [] = True"
| "edits_positive s (OpEdit i u # cs) =
     ((case findIndex (\<lambda>t. id' t = i) (tasks s) of
         None \<Rightarrow> True
       | Some idx \<Rightarrow>
           startMinutes (updatedCopy (tasks s ! idx) u) < endMinutes (updatedCopy (tasks s ! idx) u))
      \<and> edits_positive (apply_op s (OpEdit i u)) cs)"
| "edits_positive s (c # cs) = edits_positive (apply_op s c) cs"

text \<open>No adjacent pair overlaps: \<open>A.endMinutes \<le> B.startMinutes\<close> for neighbours A, B.\<close>

fun adjacent_ok :: "Task list \<Rightarrow> bool" where
  "adjacent_ok (a # b # rest) = (endMinutes a \<le> startMinutes b \<and> adjacent_ok (b # rest))"
| "adjacent_ok ts = True"

definition positive_durations :: "Task list \<Rightarrow> bool" where
  "positive_durations ts = list_all (\<lambda>t. startMinutes t < endMinutes t) ts"

definition schedule_ok :: "Task list \<Rightarrow> bool" where
  "schedule_ok ts =
     (sorted (map startMinutes ts) \<and> adjacent_ok ts \<and> positive_durations ts)"

text \<open>The conflict test that \<open>addTask\<close> and \<open>editTask\<close> both run on a collection
  and a candidate (the neighbours at the index of \<open>findInsertIndex\<close>), the insertion at
  that index, and the removal of one slot.\<close>

definition neighbour_conflict :: "Task list \<Rightarrow> Task \<Rightarrow> bool" where
  "neighbour_conflict ts t =
     (let idx = findInsertIndex ts (startMinutes t) in
      (1 \<le> idx \<and> overlaps (startMinutes (ts ! (idx - 1))) (endMinutes (ts ! (idx - 1)))
                          (startMinutes t) (endMinutes t)) \<or>
      (idx < length ts \<and> overlaps (startMinutes (ts ! idx)) (endMinutes (ts ! idx))
                          (startMinutes t) (endMinutes t)))"

definition insert_at :: "Task list \<Rightarrow> Task \<Rightarrow> Task list" where
  "insert_at ts t =
     take (findInsertIndex ts (startMinutes t)) ts @ t # drop (findInsertIndex ts (startMinutes t)) ts"

definition remove_at :: "nat \<Rightarrow> Task list \<Rightarrow> Task list" where
  "remove_at idx ts = take idx ts @ drop (Suc idx) ts"

text \<open>The ordered insertion position in the specification's words: index \<open>i\<close> is one
  where every task before it starts strictly earlier than the target and every task at or
  after it starts at the target or later.\<close>

definition is_insert_position :: "Task list \<Rightarrow> int \<Rightarrow> nat \<Rightarrow> bool" where
  "is_insert_position ts x i =
     (i \<le> length ts \<and> list_all (\<lambda>t. startMinutes t < x) (take i ts) \<and>
      list_all (\<lambda>t. x \<le> startMinutes t) (drop i ts))"

text \<open>Tasks for the scenarios: \<open>new Task(id, title, start, end, 'Low')\<close> at clock 0.\<close>

definition exampleTask :: "string \<Rightarrow> string \<Rightarrow> int \<Rightarrow> int \<Rightarrow> Task" where
  "exampleTask i ttl s e =
     \<lparr>id' = i, title = ttl, description = None, startMinutes = s, endMinutes = e,
      priority = ''Low'', completed = False, createdAt = 0\<rparr>"

definition exampleDay :: "Task list" where
  "exampleDay = [exampleTask ''a'' ''Standup'' 540 600, exampleTask ''b'' ''Review'' 600 660,
                 exampleTask ''c'' ''Lunch'' 720 780]"

text \<open>An update set that overrides \<open>startMinutes\<close> only, and a sequence of calls
  that the command line can issue: add 00:40-00:50, move its start to 01:40, add
  01:30-01:50.\<close>

definition onlyStart :: "int \<Rightarrow> Updates" where
  "onlyStart x = \<lparr>u_title = None, u_startMinutes = Some x, u_endMinutes = None,
                  u_priority = None, u_description = None\<rparr>"

definition invertingCalls :: "Op list" where
  "invertingCalls =
     [OpAdd (exampleTask ''x'' ''Nap'' 40 50),
      OpEdit ''x'' (onlyStart 100),
      OpAdd (exampleTask ''y'' ''Walk'' 90 110)]"


text \<open>A persisted collection with two overlapping intervals, out of order.\<close>

definition overlappingFile :: "Task list" where
  "overlappingFile = [exampleTask ''b'' ''Overlap'' 570 630, exampleTask ''a'' ''Standup'' 540 600]"

text \<open>
  The words of the specification on listing by priority. A string is blank when it is
  empty or made of white-space code points only. Two ASCII strings are equal without
  regard to case when they have the same length and, position by position, hold the
  same character or the upper-case and the lower-case form of one letter.
\<close>

definition isBlank :: "string \<Rightarrow> bool" where
  "isBlank p = (\<exists>ws. set ws \<subseteq> set whiteSpaceUtf8 \<and> p = concat ws)"

definition isUpperAscii :: "char \<Rightarrow> bool" where
  "isUpperAscii c = (65 \<le> (of_char c :: nat) \<and> (of_char c :: nat) \<le> 90)"

definition sameLetter :: "char \<Rightarrow> char \<Rightarrow> bool" where
  "sameLetter x y =
     (x = y \<or> (isUpperAscii x \<and> (of_char y :: nat) = of_char x + 32) \<or>
      (isUpperAscii y \<and> (of_char x :: nat) = of_char y + 32))"

definition equalIgnoringCase :: "string \<Rightarrow> string \<Rightarrow> bool" where
  "equalIgnoringCase a b = list_all2 sameLetter a b"

text \<open>A schedule whose tasks have the priorities Low, High and, stored unnormalised by
  an edit, HIGH; and the argument U+00A0, \<open>hIgh\<close>, space.\<close>

definition priorityDay :: ScheduleManager where
  "priorityDay =
     \<lparr>tasks = [exampleTask ''a'' ''Standup'' 540 600,
               (exampleTask ''b'' ''Review'' 600 660)\<lparr>priority := ''High''\<rparr>,
               (exampleTask ''c'' ''Lunch'' 720 780)\<lparr>priority := ''HIGH''\<rparr>],
      observers = [], delivered = [], saved = [], logged = []\<rparr>"

definition nbspHigh :: string where
  "nbspHigh = [CHR 0xC2, CHR 0xA0] @ ''hIgh ''"

text \<open>The neighbour that a failed \<open>addTask\<close> names: the predecessor when it overlaps
  the candidate, the successor otherwise.\<close>

definition conflicting_neighbour :: "Task list \<Rightarrow> Task \<Rightarrow> Task" where
  "conflicting_neighbour ts t =
     (let idx = findInsertIndex ts (startMinutes t) in
      if 1 \<le> idx \<and> overlaps (startMinutes (ts ! (idx - 1))) (endMinutes (ts ! (idx - 1)))
                          (startMinutes t) (endMinutes t)
      then ts ! (idx - 1) else ts ! idx)"

text \<open>The states and updates of the scenarios: one observer subscribed and
  \<open>[540, 600)\<close> "Standup" added; then \<open>[660, 720)\<close> added; an update that sets both
  times.\<close>

definition afterStandup :: ScheduleManager where
  "afterStandup =
     snd (addTask (subscribe newScheduleManager 7) (exampleTask ''a'' ''Standup'' 540 600))"

definition standupConflictMessage :: string where
  \<open>standupConflictMessage = ''Task conflicts with existing task "Standup" (09:00-10:00).''\<close>

definition twoTasks :: ScheduleManager where
  "twoTasks = snd (addTask afterStandup (exampleTask ''c'' ''Lunch'' 660 720))"

definition moveTo :: "int \<Rightarrow> int \<Rightarrow> Updates" where
  "moveTo s e = \<lparr>u_title = None, u_startMinutes = Some s, u_endMinutes = Some e,
                 u_priority = None, u_description = None\<rparr>"

section \<open>The binary search\<close>

lemma loop_lt:
  "low < high \<Longrightarrow> startMinutes (ts ! ((low + high) div 2)) < x \<Longrightarrow>
   findInsertIndex_loop ts x low high = findInsertIndex_loop ts x ((low + high) div 2 + 1) high"
  by (rule trans [OF findInsertIndex_loop.simps]) simp

lemma loop_ge:
  "low < high \<Longrightarrow> \<not> startMinutes (ts ! ((low + high) div 2)) < x \<Longrightarrow>
   findInsertIndex_loop ts x low high = findInsertIndex_loop ts x low ((low + high) div 2)"
  by (rule trans [OF findInsertIndex_loop.simps]) simp

lemma loop_done: "\<not> low < high \<Longrightarrow> findInsertIndex_loop ts x low high = low"
  by (rule trans [OF findInsertIndex_loop.simps]) simp

lemma loop_eq: "editTask_insertIdx_loop ts x low high = findInsertIndex_loop ts x low high"
proof (induction ts x low high rule: findInsertIndex_loop.induct)
  case (1 ts target low high)
  have "editTask_insertIdx_loop ts target low high =
     (if low < high then
        (if startMinutes (ts ! ((low + high) div 2)) < target
         then findInsertIndex_loop ts target ((low + high) div 2 + 1) high
         else findInsertIndex_loop ts target low ((low + high) div 2))
      else low)"
    using 1 by (subst editTask_insertIdx_loop.simps) simp
  also have "\<dots> = findInsertIndex_loop ts target low high"
    by (rule findInsertIndex_loop.simps [symmetric])
  finally show ?case .
qed

lemma loop_bounds:
  "low \<le> high \<Longrightarrow> low \<le> findInsertIndex_loop ts x low high \<and> findInsertIndex_loop ts x low high \<le> high"
proof (induction ts x low high rule: findInsertIndex_loop.induct)
  case (1 ts target low high)
  show ?case
  proof (cases "low < high")
    case True
    let ?mid = "(low + high) div 2"
    from True have m: "low \<le> ?mid" "?mid < high" by auto
    show ?thesis
    proof (cases "startMinutes (ts ! ?mid) < target")
      case lt: True
      from 1(1)[OF True lt] m have "?mid + 1 \<le> findInsertIndex_loop ts target (?mid + 1) high \<and> findInsertIndex_loop ts target (?mid + 1) high \<le> high" by simp
      then show ?thesis using m by (simp add: loop_lt [OF True lt])
    next
      case ge: False
      from 1(2)[OF True ge] m have "low \<le> findInsertIndex_loop ts target low ?mid \<and> findInsertIndex_loop ts target low ?mid \<le> ?mid" by simp
      then show ?thesis using m by (simp add: loop_ge [OF True ge])
    qed
  next
    case False
    then show ?thesis using 1(3) by (simp add: loop_done)
  qed
qed

lemma loop_lower_bound:
  assumes "sorted (map startMinutes ts)" "low \<le> high" "high \<le> length ts"
    and "\<forall>j<low. startMinutes (ts ! j) < x"
    and "\<forall>j. high \<le> j \<and> j < length ts \<longrightarrow> x \<le> startMinutes (ts ! j)"
  shows "(\<forall>j<findInsertIndex_loop ts x low high. startMinutes (ts ! j) < x) \<and>
         (\<forall>j. findInsertIndex_loop ts x low high \<le> j \<and> j < length ts \<longrightarrow> x \<le> startMinutes (ts ! j))"
  using assms
proof (induction ts x low high rule: findInsertIndex_loop.induct)
  case (1 ts target low high)
  show ?case
  proof (cases "low < high")
    case True
    let ?mid = "(low + high) div 2"
    from True have m: "low \<le> ?mid" "?mid < high" by auto
    have srt: "\<And>i j. i \<le> j \<Longrightarrow> j < length ts \<Longrightarrow> startMinutes (ts ! i) \<le> startMinutes (ts ! j)"
      using 1(3) by (simp add: sorted_iff_nth_mono)
    show ?thesis
    proof (cases "startMinutes (ts ! ?mid) < target")
      case lt: True
      have a: "\<forall>j<?mid + 1. startMinutes (ts ! j) < target"
      proof (intro allI impI)
        fix j assume "j < ?mid + 1"
        then have "j \<le> ?mid" by simp
        with srt[of j ?mid] m 1(5) have "startMinutes (ts ! j) \<le> startMinutes (ts ! ?mid)" by simp
        with lt show "startMinutes (ts ! j) < target" by simp
      qed
      have "?mid + 1 \<le> high" using m by simp
      from 1(1)[OF True lt 1(3) this 1(5) a 1(7)]
      show ?thesis by (simp only: loop_lt [OF True lt])
    next
      case ge: False
      have b: "\<forall>j. ?mid \<le> j \<and> j < length ts \<longrightarrow> target \<le> startMinutes (ts ! j)"
      proof (intro allI impI)
        fix j assume "?mid \<le> j \<and> j < length ts"
        with srt[of ?mid j] have "startMinutes (ts ! ?mid) \<le> startMinutes (ts ! j)" by simp
        with ge show "target \<le> startMinutes (ts ! j)" by simp
      qed
      have "?mid \<le> length ts" using m 1(5) by simp
      from 1(2)[OF True ge 1(3) m(1) this 1(6) b]
      show ?thesis by (simp only: loop_ge [OF True ge])
    qed
  next
    case False
    then show ?thesis using 1(6,7) 1(4) by (simp add: loop_done)
  qed
qed

lemma findInsertIndex_le: "findInsertIndex ts x \<le> length ts"
  using loop_bounds [of 0 "length ts" ts x] by (simp add: findInsertIndex_def)

lemma findInsertIndex_before:
  "sorted (map startMinutes ts) \<Longrightarrow> j < findInsertIndex ts x \<Longrightarrow> startMinutes (ts ! j) < x"
  using loop_lower_bound [of ts 0 "length ts" x] by (simp add: findInsertIndex_def)

lemma findInsertIndex_after:
  "sorted (map startMinutes ts) \<Longrightarrow> findInsertIndex ts x \<le> j \<Longrightarrow> j < length ts \<Longrightarrow>
   x \<le> startMinutes (ts ! j)"
  using loop_lower_bound [of ts 0 "length ts" x] by (simp add: findInsertIndex_def)

lemma lower_bound_unique:
  assumes "k \<le> length ts" "i \<le> length ts"
    and "\<forall>j<k. startMinutes (ts ! j) < x"
    and "\<forall>j. k \<le> j \<and> j < length ts \<longrightarrow> x \<le> startMinutes (ts ! j)"
    and "\<forall>j<i. startMinutes (ts ! j) < x"
    and "\<forall>j. i \<le> j \<and> j < length ts \<longrightarrow> x \<le> startMinutes (ts ! j)"
  shows "k = i"
proof (rule ccontr)
  assume "k \<noteq> i"
  then consider "k < i" | "i < k" by linarith
  then show False
  proof cases
    case 1
    with assms(2) have "k < length ts" by simp
    with assms(4) have "x \<le> startMinutes (ts ! k)" by simp
    moreover from 1 assms(5) have "startMinutes (ts ! k) < x" by simp
    ultimately show False by simp
  next
    case 2
    with assms(1) have "i < length ts" by simp
    with assms(6) have "x \<le> startMinutes (ts ! i)" by simp
    moreover from 2 assms(3) have "startMinutes (ts ! i) < x" by simp
    ultimately show False by simp
  qed
qed

section \<open>What each operation does to the task list\<close>

lemma tasks_effects [simp]:
  "tasks (notify s m) = tasks s"
  "tasks (Logger_info s m) = tasks s"
  "tasks (Storage_saveTasks s) = tasks s"
  "tasks (subscribe s ob) = tasks s"
  "tasks (unsubscribe s ob) = tasks s"
  by (simp_all add: notify_def Logger_info_def Storage_saveTasks_def subscribe_def unsubscribe_def)

lemma tasks_addTask_conflict [simp]: "tasks (snd (addTask_conflict s n)) = tasks s"
  by (simp add: addTask_conflict_def Let_def)

lemma tasks_editTask_conflict [simp]: "tasks (snd (editTask_conflict s n)) = tasks s"
  by (simp add: editTask_conflict_def Let_def)

lemma tasks_addTask:
  "tasks (snd (addTask s t)) = (if neighbour_conflict (tasks s) t then tasks s else insert_at (tasks s) t)"
  by (auto simp add: addTask_def neighbour_conflict_def insert_at_def Let_def)

lemma success_addTask:
  "success (fst (addTask s t)) = (\<not> neighbour_conflict (tasks s) t)"
  by (auto simp add: addTask_def neighbour_conflict_def addTask_conflict_def Let_def)

lemma tasks_removeTaskById:
  "tasks (snd (removeTaskById s i)) =
     (case findIndex (\<lambda>t. id' t = i) (tasks s) of None \<Rightarrow> tasks s
      | Some idx \<Rightarrow> remove_at idx (tasks s))"
  by (simp add: removeTaskById_def remove_at_def Let_def split: option.splits)

lemma editTask_insertIdx_eq: "editTask_insertIdx arr u = findInsertIndex arr (startMinutes u)"
  by (simp add: editTask_insertIdx_def findInsertIndex_def loop_eq)

lemma tasks_editTask:
  "tasks (snd (editTask s i u)) =
     (case findIndex (\<lambda>t. id' t = i) (tasks s) of None \<Rightarrow> tasks s
      | Some idx \<Rightarrow>
          if neighbour_conflict (remove_at idx (tasks s)) (updatedCopy (tasks s ! idx) u) then tasks s
          else insert_at (remove_at idx (tasks s)) (updatedCopy (tasks s ! idx) u))"
  by (auto simp add: editTask_def neighbour_conflict_def insert_at_def remove_at_def Let_def
      editTask_insertIdx_eq split: option.splits)

lemma success_editTask:
  "success (fst (editTask s i u)) =
     (case findIndex (\<lambda>t. id' t = i) (tasks s) of None \<Rightarrow> False
      | Some idx \<Rightarrow> \<not> neighbour_conflict (remove_at idx (tasks s)) (updatedCopy (tasks s ! idx) u))"
  by (auto simp add: editTask_def neighbour_conflict_def remove_at_def Let_def editTask_conflict_def
      editTask_insertIdx_eq split: option.splits)

lemma tasks_markCompleted:
  "tasks (snd (markCompleted s i)) =
     (case findIndex (\<lambda>t. id' t = i) (tasks s) of None \<Rightarrow> tasks s
      | Some idx \<Rightarrow> (tasks s)[idx := (tasks s ! idx)\<lparr>completed := True\<rparr>])"
  by (simp add: markCompleted_def Let_def split: option.splits)

lemma findIndex_Some: "findIndex P xs = Some k \<Longrightarrow> k < length xs \<and> P (xs ! k) \<and> (\<forall>j<k. \<not> P (xs ! j))"
proof (induction xs arbitrary: k)
  case Nil
  then show ?case by simp
next
  case (Cons x xs)
  show ?case
  proof (cases "P x")
    case True
    with Cons.prems show ?thesis by simp
  next
    case False
    with Cons.prems obtain k' where k': "findIndex P xs = Some k'" "k = Suc k'"
      by (auto split: option.splits)
    from Cons.IH[OF k'(1)] False k'(2) show ?thesis
      by (auto simp add: less_Suc_eq_0_disj)
  qed
qed

lemma findIndex_None: "findIndex P xs = None \<longleftrightarrow> (\<forall>x\<in>set xs. \<not> P x)"
  by (induction xs) (auto split: option.splits)

section \<open>Order by start time\<close>

lemma take_before:
  assumes "sorted (map startMinutes ts)" "p \<in> set (take (findInsertIndex ts x) ts)"
  shows "startMinutes p < x"
proof -
  from assms(2) obtain j where j: "j < length (take (findInsertIndex ts x) ts)"
      "take (findInsertIndex ts x) ts ! j = p"
    by (auto simp add: in_set_conv_nth)
  then have "j < findInsertIndex ts x" by simp
  with findInsertIndex_before[OF assms(1)] have "startMinutes (ts ! j) < x" by simp
  with j show ?thesis by simp
qed

lemma drop_after:
  assumes "sorted (map startMinutes ts)" "n \<in> set (drop (findInsertIndex ts x) ts)"
  shows "x \<le> startMinutes n"
proof -
  from assms(2) obtain j where j: "j < length (drop (findInsertIndex ts x) ts)"
      "drop (findInsertIndex ts x) ts ! j = n"
    by (auto simp add: in_set_conv_nth)
  then have "findInsertIndex ts x + j < length ts" by simp
  with findInsertIndex_after[OF assms(1), of x "findInsertIndex ts x + j"]
  have "x \<le> startMinutes (ts ! (findInsertIndex ts x + j))" by simp
  with j findInsertIndex_le[of ts x] show ?thesis by simp
qed

lemma sorted_insert_at:
  assumes "sorted (map startMinutes ts)"
  shows "sorted (map startMinutes (insert_at ts t))"
proof -
  let ?i = "findInsertIndex ts (startMinutes t)"
  have "sorted (map startMinutes (take ?i ts @ drop ?i ts))" using assms by simp
  then have "sorted (map startMinutes (take ?i ts))" "sorted (map startMinutes (drop ?i ts))"
    "\<forall>a\<in>set (take ?i ts). \<forall>b\<in>set (drop ?i ts). startMinutes a \<le> startMinutes b"
    unfolding map_append sorted_append by auto
  moreover have "\<forall>a\<in>set (take ?i ts). startMinutes a \<le> startMinutes t"
    using take_before[OF assms] by fastforce
  moreover have "\<forall>b\<in>set (drop ?i ts). startMinutes t \<le> startMinutes b"
    using drop_after[OF assms] by fastforce
  ultimately show ?thesis
    unfolding insert_at_def by (auto simp add: sorted_append)
qed

lemma sorted_wrt_remove:
  assumes "sorted_wrt R xs"
  shows "sorted_wrt R (take i xs @ drop (Suc i) xs)"
proof -
  have "sorted_wrt R (take i xs @ drop i xs)" using assms by simp
  then have a: "sorted_wrt R (take i xs)" "sorted_wrt R (drop i xs)"
    "\<forall>a\<in>set (take i xs). \<forall>b\<in>set (drop i xs). R a b"
    unfolding sorted_wrt_append by auto
  have d: "drop (Suc i) xs = drop 1 (drop i xs)" by simp
  have "sorted_wrt R (drop (Suc i) xs)"
    unfolding d using a(2) by (rule sorted_wrt_drop)
  moreover have "\<forall>b\<in>set (drop (Suc i) xs). b \<in> set (drop i xs)"
    using set_drop_subset_set_drop [of i "Suc i" xs] by auto
  ultimately show ?thesis using a by (auto simp add: sorted_wrt_append)
qed

lemma sorted_remove_at:
  "sorted (map startMinutes ts) \<Longrightarrow> sorted (map startMinutes (remove_at idx ts))"
  unfolding remove_at_def sorted_map by (rule sorted_wrt_remove)

lemma map_start_complete:
  "idx < length ts \<Longrightarrow> map startMinutes (ts[idx := (ts ! idx)\<lparr>completed := True\<rparr>]) = map startMinutes ts"
  by (simp add: map_update list_update_same_conv)

lemma sorted_apply_op:
  assumes "sorted (map startMinutes (tasks s))"
  shows "sorted (map startMinutes (tasks (apply_op s c)))"
proof (cases c)
  case (OpAdd t)
  then show ?thesis using assms by (simp add: tasks_addTask sorted_insert_at)
next
  case (OpEdit i u)
  then show ?thesis using assms
    by (simp add: tasks_editTask sorted_insert_at sorted_remove_at split: option.splits)
next
  case (OpRemove i)
  then show ?thesis using assms
    by (simp add: tasks_removeTaskById sorted_remove_at split: option.splits)
next
  case (OpComplete i)
  then show ?thesis using assms
    by (auto simp add: tasks_markCompleted map_start_complete split: option.splits
        dest: findIndex_Some)
next
  case (OpSubscribe ob)
  then show ?thesis using assms by simp
next
  case (OpUnsubscribe ob)
  then show ?thesis using assms by simp
qed

lemma sorted_run:
  "sorted (map startMinutes (tasks s)) \<Longrightarrow> sorted (map startMinutes (tasks (run s cs)))"
  by (induction cs arbitrary: s) (simp_all add: sorted_apply_op)

lemma sorted_getInstance: "sorted (map startMinutes (tasks (getInstance r)))"
  by (cases r) (simp_all add: getInstance_def load_def)

section \<open>The overlap test and the insertion index\<close>

text \<open>
  Claim C4. The overlap predicate of every conflict check holds of \<open>[aStart, aEnd)\<close> and
  \<open>[bStart, bEnd)\<close> exactly when \<open>aStart < bEnd\<close> and \<open>bStart < aEnd\<close>. Hence
  \<open>[540, 600)\<close> and \<open>[600, 660)\<close>, which only touch, do not overlap, while
  \<open>[540, 600)\<close> and \<open>[599, 660)\<close> do.
\<close>

theorem overlaps_iff:
  "overlaps aStart aEnd bStart bEnd = (aStart < bEnd \<and> bStart < aEnd) \<and>
   \<not> overlaps 540 600 600 660 \<and> overlaps 540 600 599 660"
  by (simp add: overlaps_def)

lemma is_insert_position_nth:
  "is_insert_position ts x i =
     (i \<le> length ts \<and> (\<forall>j<i. startMinutes (ts ! j) < x) \<and>
      (\<forall>j. i \<le> j \<and> j < length ts \<longrightarrow> x \<le> startMinutes (ts ! j)))"
proof -
  have a: "i \<le> length ts \<Longrightarrow>
     list_all (\<lambda>t. startMinutes t < x) (take i ts) = (\<forall>j<i. startMinutes (ts ! j) < x)"
    by (auto simp add: list_all_length)
  have b: "i \<le> length ts \<Longrightarrow>
     list_all (\<lambda>t. x \<le> startMinutes t) (drop i ts) =
       (\<forall>j. i \<le> j \<and> j < length ts \<longrightarrow> x \<le> startMinutes (ts ! j))"
  proof
    assume i: "i \<le> length ts" and l: "list_all (\<lambda>t. x \<le> startMinutes t) (drop i ts)"
    show "\<forall>j. i \<le> j \<and> j < length ts \<longrightarrow> x \<le> startMinutes (ts ! j)"
    proof (intro allI impI)
      fix j assume j: "i \<le> j \<and> j < length ts"
      then have "j - i < length (drop i ts)" by auto
      with l have "x \<le> startMinutes (drop i ts ! (j - i))" by (simp add: list_all_length)
      with j i show "x \<le> startMinutes (ts ! j)" by simp
    qed
  next
    assume i: "i \<le> length ts" and l: "\<forall>j. i \<le> j \<and> j < length ts \<longrightarrow> x \<le> startMinutes (ts ! j)"
    show "list_all (\<lambda>t. x \<le> startMinutes t) (drop i ts)"
      using i l by (auto simp add: list_all_length)
  qed
  show ?thesis unfolding is_insert_position_def using a b by blast
qed

lemma findInsertIndex_is_insert_position:
  "sorted (map startMinutes ts) \<Longrightarrow> is_insert_position ts x (findInsertIndex ts x)"
  unfolding is_insert_position_nth
  using findInsertIndex_le findInsertIndex_before findInsertIndex_after by blast

lemma is_insert_position_unique:
  "is_insert_position ts x k \<Longrightarrow> is_insert_position ts x i \<Longrightarrow> k = i"
  unfolding is_insert_position_nth using lower_bound_unique [of k ts i x] by blast

text \<open>
  Claim C6. On a task sequence sorted by start time, \<open>findInsertIndex\<close> returns an
  ordered insertion position for the target: every task before it starts strictly
  earlier, every task at or after it starts at the target or later. It is the only such
  index. The search written inline in \<open>editTask\<close> returns the same index on the
  collection with one slot removed, where it is the insertion position too.
\<close>

theorem findInsertIndex_lower_bound:
  assumes "sorted (map startMinutes ts)"
  shows "is_insert_position ts x (findInsertIndex ts x) \<and>
         (\<forall>k. is_insert_position ts x k \<longrightarrow> k = findInsertIndex ts x) \<and>
         editTask_insertIdx (remove_at idx ts) u =
           findInsertIndex (remove_at idx ts) (startMinutes u) \<and>
         is_insert_position (remove_at idx ts) (startMinutes u)
           (editTask_insertIdx (remove_at idx ts) u)"
proof -
  have a: "is_insert_position ts x (findInsertIndex ts x)"
    using assms by (rule findInsertIndex_is_insert_position)
  have b: "\<forall>k. is_insert_position ts x k \<longrightarrow> k = findInsertIndex ts x"
    using is_insert_position_unique [OF _ a] by blast
  have "sorted (map startMinutes (remove_at idx ts))"
    using assms by (rule sorted_remove_at)
  then have c: "is_insert_position (remove_at idx ts) (startMinutes u)
      (findInsertIndex (remove_at idx ts) (startMinutes u))"
    by (rule findInsertIndex_is_insert_position)
  have d: "editTask_insertIdx (remove_at idx ts) u =
      findInsertIndex (remove_at idx ts) (startMinutes u)"
    by (rule editTask_insertIdx_eq)
  from a b d c show ?thesis unfolding d by (intro conjI) (assumption | rule refl)+
qed

theorem findInsertIndex_lower_bound_witness:
  "sorted (map startMinutes exampleDay) \<and> findInsertIndex exampleDay 700 = 2 \<and>
   is_insert_position exampleDay 700 2 \<and>
   editTask_insertIdx (remove_at 0 exampleDay) (exampleTask ''a'' ''Standup'' 660 700) = 1 \<and>
   is_insert_position (remove_at 0 exampleDay) 660 1"
proof -
  have h: "sorted (map startMinutes exampleDay)"
    by (simp add: exampleDay_def exampleTask_def)
  have e: "findInsertIndex exampleDay 700 = 2"
    by code_simp
  have e2: "editTask_insertIdx (remove_at 0 exampleDay) (exampleTask ''a'' ''Standup'' 660 700) = 1"
    by code_simp
  have s: "startMinutes (exampleTask ''a'' ''Standup'' 660 700) = 660"
    by (simp add: exampleTask_def)
  note t = findInsertIndex_lower_bound [OF h, of 700 0 "exampleTask ''a'' ''Standup'' 660 700"]
  from t have p: "is_insert_position exampleDay 700 2"
    unfolding e by (rule conjunct1)
  have q: "is_insert_position (remove_at 0 exampleDay) 660 1"
    using t [unfolded e2 s] by (rule conjunct2 [THEN conjunct2, THEN conjunct2])
  from h e p e2 q show ?thesis by (intro conjI)
qed

section \<open>The listing is sorted\<close>

text \<open>
  Claim C7. After initialisation, which sorts whatever the store returned by start time,
  and after every further sequence of operations (add, edit, remove, complete,
  subscribe, unsubscribe; successful or not), \<open>listTasks\<close> is sorted ascending by
  \<open>startMinutes\<close>.
\<close>

theorem listTasks_sorted:
  "sorted (map startMinutes (listTasks (getInstance r))) \<and>
   sorted (map startMinutes (listTasks (run (getInstance r) cs)))"
  unfolding listTasks_def using sorted_getInstance sorted_run by blast

section \<open>The no-overlap invariant\<close>

text \<open>With sorted start times and positive durations, no overlap between neighbours is
  no overlap between any two tasks, which is what insertion and removal preserve.\<close>

lemma adjacent_ok_sorted_wrt:
  "positive_durations ts \<Longrightarrow> adjacent_ok ts \<Longrightarrow>
   sorted_wrt (\<lambda>a b. endMinutes a \<le> startMinutes b) ts"
proof (induction ts rule: adjacent_ok.induct)
  case (1 a b rest)
  then have sw: "sorted_wrt (\<lambda>a b. endMinutes a \<le> startMinutes b) (b # rest)"
    and ab: "endMinutes a \<le> startMinutes b" and pb: "startMinutes b < endMinutes b"
    by (simp_all add: positive_durations_def)
  have "\<forall>c\<in>set rest. endMinutes a \<le> startMinutes c"
  proof
    fix c assume "c \<in> set rest"
    with sw have "endMinutes b \<le> startMinutes c" by simp
    with ab pb show "endMinutes a \<le> startMinutes c" by simp
  qed
  with sw ab show ?case by simp
qed simp_all

lemma sorted_wrt_adjacent_ok:
  "sorted_wrt (\<lambda>a b. endMinutes a \<le> startMinutes b) ts \<Longrightarrow> adjacent_ok ts"
  by (induction ts rule: adjacent_ok.induct) simp_all

lemma disjoint_sorted:
  assumes "sorted_wrt (\<lambda>a b. endMinutes a \<le> startMinutes b) ts" "positive_durations ts"
  shows "sorted (map startMinutes ts)"
proof -
  have "sorted_wrt (\<lambda>a b. startMinutes a \<le> startMinutes b) ts"
  proof (rule sorted_wrt_mono_rel [OF _ assms(1)])
    fix x y assume "x \<in> set ts" "y \<in> set ts" "endMinutes x \<le> startMinutes y"
    moreover from \<open>x \<in> set ts\<close> assms(2) have "startMinutes x < endMinutes x"
      by (simp add: positive_durations_def list_all_iff)
    ultimately show "startMinutes x \<le> startMinutes y" by simp
  qed
  then show ?thesis by (simp add: sorted_map)
qed

lemma schedule_ok_iff:
  "schedule_ok ts =
     (sorted_wrt (\<lambda>a b. endMinutes a \<le> startMinutes b) ts \<and> positive_durations ts)"
  unfolding schedule_ok_def
  using adjacent_ok_sorted_wrt sorted_wrt_adjacent_ok disjoint_sorted by blast

lemma insert_at_disjoint:
  assumes sw: "sorted_wrt (\<lambda>a b. endMinutes a \<le> startMinutes b) ts"
    and pos: "positive_durations ts"
    and t: "startMinutes t < endMinutes t"
    and nc: "\<not> neighbour_conflict ts t"
  shows "sorted_wrt (\<lambda>a b. endMinutes a \<le> startMinutes b) (insert_at ts t)"
proof -
  let ?R = "\<lambda>a b. endMinutes a \<le> startMinutes b"
  let ?i = "findInsertIndex ts (startMinutes t)"
  have srt: "sorted (map startMinutes ts)" using sw pos by (rule disjoint_sorted)
  have le: "?i \<le> length ts" by (rule findInsertIndex_le)
  have nth: "\<And>j k. j < k \<Longrightarrow> k < length ts \<Longrightarrow> endMinutes (ts ! j) \<le> startMinutes (ts ! k)"
    using sw by (simp add: sorted_wrt_iff_nth_less)
  have posn: "\<And>j. j < length ts \<Longrightarrow> startMinutes (ts ! j) < endMinutes (ts ! j)"
    using pos by (simp add: positive_durations_def list_all_length)
  have before: "\<forall>p\<in>set (take ?i ts). endMinutes p \<le> startMinutes t"
  proof
    fix p assume "p \<in> set (take ?i ts)"
    then obtain j where j: "j < ?i" "p = ts ! j"
      by (auto simp add: in_set_conv_nth)
    then have i1: "1 \<le> ?i" "?i - 1 < length ts" "?i - 1 < ?i" using le by auto
    from nc i1(1) have "\<not> overlaps (startMinutes (ts ! (?i - 1))) (endMinutes (ts ! (?i - 1)))
        (startMinutes t) (endMinutes t)"
      by (auto simp add: neighbour_conflict_def Let_def)
    moreover have "startMinutes (ts ! (?i - 1)) < startMinutes t"
      using findInsertIndex_before [OF srt i1(3)] .
    ultimately have prev: "endMinutes (ts ! (?i - 1)) \<le> startMinutes t"
      using t by (auto simp add: overlaps_def)
    show "endMinutes p \<le> startMinutes t"
    proof (cases "j = ?i - 1")
      case True
      with prev j show ?thesis by simp
    next
      case False
      with j have "j < ?i - 1" by simp
      from nth [OF this i1(2)] posn [OF i1(2)] prev j show ?thesis by simp
    qed
  qed
  have after: "\<forall>n\<in>set (drop ?i ts). endMinutes t \<le> startMinutes n"
  proof
    fix n assume "n \<in> set (drop ?i ts)"
    then obtain j where j: "j < length ts - ?i" "n = ts ! (?i + j)"
      using le by (auto simp add: in_set_conv_nth)
    then have i1: "?i < length ts" by simp
    from nc i1 have "\<not> overlaps (startMinutes (ts ! ?i)) (endMinutes (ts ! ?i))
        (startMinutes t) (endMinutes t)"
      by (auto simp add: neighbour_conflict_def Let_def)
    moreover have "startMinutes t \<le> startMinutes (ts ! ?i)"
      using findInsertIndex_after [OF srt _ i1] by simp
    ultimately have nxt: "endMinutes t \<le> startMinutes (ts ! ?i)"
      using posn [OF i1] by (auto simp add: overlaps_def)
    show "endMinutes t \<le> startMinutes n"
    proof (cases "j = 0")
      case True
      with nxt j show ?thesis by simp
    next
      case False
      with j have "?i < ?i + j" "?i + j < length ts" by simp_all
      from nth [OF this] posn [OF i1] nxt j show ?thesis by simp
    qed
  qed
  have "sorted_wrt ?R (take ?i ts @ drop ?i ts)" using sw by simp
  then have "sorted_wrt ?R (take ?i ts)" "sorted_wrt ?R (drop ?i ts)"
    "\<forall>a\<in>set (take ?i ts). \<forall>b\<in>set (drop ?i ts). ?R a b"
    unfolding sorted_wrt_append by auto
  with before after show ?thesis
    unfolding insert_at_def by (auto simp add: sorted_wrt_append)
qed

lemma positive_insert_at:
  "positive_durations ts \<Longrightarrow> startMinutes t < endMinutes t \<Longrightarrow> positive_durations (insert_at ts t)"
  unfolding positive_durations_def insert_at_def list_all_iff
  by (auto dest: in_set_takeD in_set_dropD)

lemma positive_remove_at:
  "positive_durations ts \<Longrightarrow> positive_durations (remove_at idx ts)"
  unfolding positive_durations_def remove_at_def list_all_iff
  by (auto dest: in_set_takeD in_set_dropD)

lemma schedule_ok_insert_at:
  "schedule_ok ts \<Longrightarrow> startMinutes t < endMinutes t \<Longrightarrow> \<not> neighbour_conflict ts t \<Longrightarrow>
   schedule_ok (insert_at ts t)"
  unfolding schedule_ok_iff by (simp add: insert_at_disjoint positive_insert_at)

lemma schedule_ok_remove_at: "schedule_ok ts \<Longrightarrow> schedule_ok (remove_at idx ts)"
  unfolding schedule_ok_iff remove_at_def
  using sorted_wrt_remove positive_remove_at [unfolded remove_at_def] by blast

lemma schedule_ok_complete:
  assumes "schedule_ok ts" "idx < length ts"
  shows "schedule_ok (ts[idx := (ts ! idx)\<lparr>completed := True\<rparr>])"
proof -
  let ?ts' = "ts[idx := (ts ! idx)\<lparr>completed := True\<rparr>]"
  have s: "\<And>j. j < length ts \<Longrightarrow> startMinutes (?ts' ! j) = startMinutes (ts ! j)"
    and e: "\<And>j. j < length ts \<Longrightarrow> endMinutes (?ts' ! j) = endMinutes (ts ! j)"
    using assms(2) by (simp_all add: nth_list_update)
  from assms(1) show ?thesis
    unfolding schedule_ok_iff positive_durations_def list_all_length sorted_wrt_iff_nth_less
    using s e by simp
qed

lemma schedule_ok_apply_op:
  assumes "schedule_ok (tasks s)" "adds_positive [c]" "edits_positive s [c]"
  shows "schedule_ok (tasks (apply_op s c))"
proof (cases c)
  case (OpAdd t)
  then show ?thesis using assms by (simp add: tasks_addTask schedule_ok_insert_at)
next
  case (OpEdit i u)
  then show ?thesis using assms
    by (simp add: tasks_editTask schedule_ok_insert_at schedule_ok_remove_at split: option.splits)
next
  case (OpRemove i)
  then show ?thesis using assms
    by (simp add: tasks_removeTaskById schedule_ok_remove_at split: option.splits)
next
  case (OpComplete i)
  then show ?thesis using assms
    by (auto simp add: tasks_markCompleted schedule_ok_complete split: option.splits
        dest: findIndex_Some)
next
  case (OpSubscribe ob)
  then show ?thesis using assms by simp
next
  case (OpUnsubscribe ob)
  then show ?thesis using assms by simp
qed

lemma schedule_ok_run:
  "schedule_ok (tasks s) \<Longrightarrow> adds_positive cs \<Longrightarrow> edits_positive s cs \<Longrightarrow>
   schedule_ok (tasks (run s cs))"
proof (induction cs arbitrary: s)
  case Nil
  then show ?case by simp
next
  case (Cons c cs)
  have "adds_positive [c]" using Cons.prems(2) by (cases c) simp_all
  moreover have "edits_positive s [c]" using Cons.prems(3) by (cases c) simp_all
  ultimately have "schedule_ok (tasks (apply_op s c))"
    using Cons.prems(1) by (intro schedule_ok_apply_op)
  moreover have "adds_positive cs" using Cons.prems(2) by (cases c) simp_all
  moreover have "edits_positive (apply_op s c) cs" using Cons.prems(3) by (cases c) simp_all
  ultimately show ?case using Cons.IH by simp
qed

text \<open>
  Claim C1. Starting from the empty schedule, three successful calls (every task handed
  to \<open>addTask\<close> ending after it starts) leave two neighbours that overlap: the edit
  moves the start of the first task past its end, \<open>editTask\<close> accepts the inverted
  interval \<open>[100, 50)\<close>, and the neighbour check of the next \<open>addTask\<close> then lets
  \<open>[90, 110)\<close> in before it. The adjacent-pair property \<open>A.endMinutes \<le> B.startMinutes\<close>
  fails on the result. (It holds after every sequence whose edit candidates end after
  they start: \<open>schedule_ok_run\<close>.)
\<close>

theorem overlap_after_inverting_edit:
  "adds_positive invertingCalls \<and> all_succeed newScheduleManager invertingCalls \<and>
   map (\<lambda>t. (id' t, startMinutes t, endMinutes t)) (tasks (run newScheduleManager invertingCalls)) =
     [(''y'', 90, 110), (''x'', 100, 50)] \<and>
   \<not> adjacent_ok (tasks (run newScheduleManager invertingCalls))"
  by code_simp

section \<open>Edits are not checked for their duration\<close>

lemma findInsertIndex_Nil: "findInsertIndex [] x = 0"
  by (simp add: findInsertIndex_def loop_done)

lemma updatedCopy_onlyStart: "updatedCopy t0 (onlyStart x) = t0\<lparr>startMinutes := x\<rparr>"
  by (simp add: updatedCopy_def onlyStart_def nullish_def)

lemma editTask_single:
  assumes "tasks s = [t0]"
  shows "success (fst (editTask s (id' t0) u)) \<and> tasks (snd (editTask s (id' t0) u)) = [updatedCopy t0 u]"
  using assms
  by (simp add: success_editTask tasks_editTask remove_at_def neighbour_conflict_def
      insert_at_def findInsertIndex_Nil)

lemma parseTime_create:
  "TaskFactory_create toLowerCase now rnd created ttl startHHMM endHHMM prio desc = Inr t \<Longrightarrow>
   startMinutes t < endMinutes t"
  by (auto simp add: TaskFactory_create_def split: sum.splits if_splits)

text \<open>
  Claim C3. \<open>editTask\<close> checks no duration. In a schedule that holds one task, an
  update that overrides only \<open>startMinutes\<close>, with a value at or past the task's end,
  succeeds and stores a task with \<open>endMinutes \<le> startMinutes\<close>. The check
  \<open>end > start\<close> lives in \<open>TaskFactory.create\<close>: whatever it returns ends after it
  starts.
\<close>

theorem editTask_no_duration_check:
  assumes "tasks s = [t0]" and "endMinutes t0 \<le> x"
  shows "success (fst (editTask s (id' t0) (onlyStart x))) \<and>
         tasks (snd (editTask s (id' t0) (onlyStart x))) = [t0\<lparr>startMinutes := x\<rparr>] \<and>
         list_all (\<lambda>t. endMinutes t \<le> startMinutes t) (tasks (snd (editTask s (id' t0) (onlyStart x)))) \<and>
         (case TaskFactory_create toLowerCase now rnd created ttl startHHMM endHHMM prio desc of
            Inl e \<Rightarrow> True
          | Inr t \<Rightarrow> startMinutes t < endMinutes t)"
proof -
  have "case TaskFactory_create toLowerCase now rnd created ttl startHHMM endHHMM prio desc of
            Inl e \<Rightarrow> True
          | Inr t \<Rightarrow> startMinutes t < endMinutes t"
    using parseTime_create by (simp split: sum.splits)
  then show ?thesis
    using editTask_single [OF assms(1), of "onlyStart x"] assms(2)
    by (simp add: updatedCopy_onlyStart)
qed


section \<open>The initial load\<close>

lemma tasks_getInstance_file:
  "tasks (getInstance (Storage_loadTasks (Some arr))) = sort_key startMinutes arr"
  by (simp add: getInstance_def load_def Storage_loadTasks_def)

text \<open>
  Claim C10. The initial load sorts the persisted collection by start time and checks no
  overlap: the live state is the sorted file. For the persisted pair \<open>[570, 630)\<close>,
  \<open>[540, 600)\<close> the loaded schedule has neighbours with \<open>A.endMinutes > B.startMinutes\<close>,
  and a later successful \<open>addTask\<close> leaves that overlap in place.
\<close>

theorem load_keeps_overlap:
  "tasks (getInstance (Storage_loadTasks (Some arr))) = sort_key startMinutes arr \<and>
   tasks (getInstance (Storage_loadTasks (Some overlappingFile))) =
     [exampleTask ''a'' ''Standup'' 540 600, exampleTask ''b'' ''Overlap'' 570 630] \<and>
   overlaps 540 600 570 630 \<and>
   \<not> adjacent_ok (tasks (getInstance (Storage_loadTasks (Some overlappingFile)))) \<and>
   success (fst (addTask (getInstance (Storage_loadTasks (Some overlappingFile)))
                  (exampleTask ''c'' ''Lunch'' 720 780))) \<and>
   \<not> adjacent_ok (tasks (snd (addTask (getInstance (Storage_loadTasks (Some overlappingFile)))
                  (exampleTask ''c'' ''Lunch'' 720 780))))"
proof -
  have a: "tasks (getInstance (Storage_loadTasks (Some overlappingFile))) =
     [exampleTask ''a'' ''Standup'' 540 600, exampleTask ''b'' ''Overlap'' 570 630]"
    by code_simp
  have b: "overlaps 540 600 570 630" by (simp add: overlaps_def)
  have c: "\<not> adjacent_ok (tasks (getInstance (Storage_loadTasks (Some overlappingFile))))"
    by code_simp
  have d: "success (fst (addTask (getInstance (Storage_loadTasks (Some overlappingFile)))
                  (exampleTask ''c'' ''Lunch'' 720 780)))"
    by code_simp
  have e: "\<not> adjacent_ok (tasks (snd (addTask (getInstance (Storage_loadTasks (Some overlappingFile)))
                  (exampleTask ''c'' ''Lunch'' 720 780))))"
    by code_simp
  from tasks_getInstance_file a b c d e show ?thesis by (intro conjI)
qed

section \<open>Completion\<close>

lemma findIndex_complete:
  "findIndex (\<lambda>t. id' t = i) ts = Some idx \<Longrightarrow>
   findIndex (\<lambda>t. id' t = i) (ts[idx := (ts ! idx)\<lparr>completed := True\<rparr>]) = Some idx"
proof (induction ts arbitrary: idx)
  case Nil
  then show ?case by simp
next
  case (Cons a ts)
  show ?case
  proof (cases "id' a = i")
    case True
    with Cons.prems show ?thesis by auto
  next
    case False
    with Cons.prems obtain k where k: "findIndex (\<lambda>t. id' t = i) ts = Some k" "idx = Suc k"
      by (auto split: option.splits)
    from Cons.IH [OF k(1)] False k(2) show ?thesis by simp
  qed
qed

lemma findIndex_exists:
  "\<exists>t\<in>set ts. P t \<Longrightarrow> \<exists>idx. findIndex P ts = Some idx"
  using findIndex_None [of P ts] by (cases "findIndex P ts") auto

lemma success_markCompleted:
  "success (fst (markCompleted s i)) = (findIndex (\<lambda>t. id' t = i) (tasks s) \<noteq> None)"
  by (simp add: markCompleted_def Let_def split: option.splits)

text \<open>
  Claim C9. When the schedule contains a task with the given id, \<open>markCompleted\<close>
  succeeds; the task list afterwards is the old one with the \<open>completed\<close> flag of the
  first task of that id set, in the same slot, every other task and field as before. A
  second call with the same id succeeds too and leaves the task list as the first call
  left it.
\<close>

theorem markCompleted_idempotent:
  assumes "\<exists>t\<in>set (tasks s). id' t = i"
  shows "\<exists>idx. findIndex (\<lambda>t. id' t = i) (tasks s) = Some idx \<and>
           idx < length (tasks s) \<and> id' (tasks s ! idx) = i \<and>
           success (fst (markCompleted s i)) \<and>
           tasks (snd (markCompleted s i)) = (tasks s)[idx := (tasks s ! idx)\<lparr>completed := True\<rparr>] \<and>
           completed (tasks (snd (markCompleted s i)) ! idx) \<and>
           success (fst (markCompleted (snd (markCompleted s i)) i)) \<and>
           tasks (snd (markCompleted (snd (markCompleted s i)) i)) = tasks (snd (markCompleted s i))"
proof -
  from findIndex_exists [OF assms] obtain idx
    where idx: "findIndex (\<lambda>t. id' t = i) (tasks s) = Some idx" by blast
  from findIndex_Some [OF idx] have lt: "idx < length (tasks s)" and eq: "id' (tasks s ! idx) = i"
    by simp_all
  let ?ts' = "(tasks s)[idx := (tasks s ! idx)\<lparr>completed := True\<rparr>]"
  have t1: "tasks (snd (markCompleted s i)) = ?ts'"
    using idx by (simp add: tasks_markCompleted)
  have s1: "success (fst (markCompleted s i))"
    using idx by (simp add: success_markCompleted)
  have idx': "findIndex (\<lambda>t. id' t = i) ?ts' = Some idx"
    using idx by (rule findIndex_complete)
  have c1: "completed (?ts' ! idx)" using lt by simp
  have s2: "success (fst (markCompleted (snd (markCompleted s i)) i))"
    using idx' by (simp add: success_markCompleted t1)
  have "tasks (snd (markCompleted (snd (markCompleted s i)) i)) =
      ?ts'[idx := (?ts' ! idx)\<lparr>completed := True\<rparr>]"
    unfolding tasks_markCompleted [of "snd (markCompleted s i)"] t1 idx' by simp
  then have t2: "tasks (snd (markCompleted (snd (markCompleted s i)) i)) = ?ts'"
    using lt by simp
  from idx lt eq s1 t1 c1 s2 t2 show ?thesis by simp
qed

section \<open>Listing by priority\<close>

text \<open>\<open>trim\<close> yields the empty string exactly on the blank strings.\<close>

lemma whiteSpace_nonempty: "w \<in> set whiteSpaceUtf8 \<Longrightarrow> w \<noteq> []"
  by (auto simp add: whiteSpaceUtf8_def)

lemma whiteSpace_length:
  "w \<in> set whiteSpaceUtf8 \<Longrightarrow>
   length w = (if (of_char (hd w) :: nat) < 128 then 1 else if (of_char (hd w) :: nat) < 224 then 2 else 3)"
  by (auto simp add: whiteSpaceUtf8_def)

lemma whiteSpace_prefix_free:
  assumes "w \<in> set whiteSpaceUtf8" "w' \<in> set whiteSpaceUtf8" "prefix w' (w @ r)"
  shows "w' = w"
proof -
  from assms(1,2) obtain x xs y ys where c: "w = x # xs" "w' = y # ys"
    by (metis whiteSpace_nonempty list.exhaust)
  with assms(3) have "hd w' = hd w" by simp
  with whiteSpace_length [OF assms(1)] whiteSpace_length [OF assms(2)]
  have "length w' = length w" by simp
  moreover from assms(3) obtain zs where "w @ r = w' @ zs" by (auto simp add: prefix_def)
  ultimately show ?thesis by simp
qed

lemma leadingWhiteSpace_Some:
  "leadingWhiteSpace s = Some w \<Longrightarrow> w \<in> set whiteSpaceUtf8 \<and> s = w @ drop (length w) s"
  by (auto simp add: leadingWhiteSpace_def find_Some_iff prefix_def)

lemma trailingWhiteSpace_Some:
  "trailingWhiteSpace s = Some w \<Longrightarrow>
   w \<in> set whiteSpaceUtf8 \<and> s = take (length s - length w) s @ w"
  by (auto simp add: trailingWhiteSpace_def find_Some_iff suffix_def)

lemma leadingWhiteSpace_append:
  assumes "w \<in> set whiteSpaceUtf8"
  shows "leadingWhiteSpace (w @ r) = Some w"
proof (cases "leadingWhiteSpace (w @ r)")
  case None
  then show ?thesis using assms by (auto simp add: leadingWhiteSpace_def find_None_iff)
next
  case (Some w')
  then have "w' \<in> set whiteSpaceUtf8" "prefix w' (w @ r)"
    by (auto simp add: leadingWhiteSpace_def find_Some_iff)
  with assms have "w' = w" by (auto dest: whiteSpace_prefix_free)
  with Some show ?thesis by simp
qed

lemma trimStart_None: "leadingWhiteSpace s = None \<Longrightarrow> trimStart s = s"
  by (rule trans [OF trimStart.simps]) simp

lemma trimStart_Some: "leadingWhiteSpace s = Some w \<Longrightarrow> trimStart s = trimStart (drop (length w) s)"
  by (rule trans [OF trimStart.simps]) simp

lemma trimEnd_None: "trailingWhiteSpace s = None \<Longrightarrow> trimEnd s = s"
  by (rule trans [OF trimEnd.simps]) simp

lemma trimEnd_Some:
  "trailingWhiteSpace s = Some w \<Longrightarrow> trimEnd s = trimEnd (take (length s - length w) s)"
  by (rule trans [OF trimEnd.simps]) simp

lemma isBlank_Nil: "isBlank []"
  unfolding isBlank_def by (rule exI [of _ "[]"]) simp

lemma isBlank_Cons: "w \<in> set whiteSpaceUtf8 \<Longrightarrow> isBlank s \<Longrightarrow> isBlank (w @ s)"
proof -
  assume w: "w \<in> set whiteSpaceUtf8" and "isBlank s"
  then obtain ws where ws: "set ws \<subseteq> set whiteSpaceUtf8" "s = concat ws"
    by (auto simp add: isBlank_def)
  with w have "set (w # ws) \<subseteq> set whiteSpaceUtf8 \<and> w @ s = concat (w # ws)" by simp
  then show "isBlank (w @ s)" unfolding isBlank_def by blast
qed

lemma isBlank_snoc: "w \<in> set whiteSpaceUtf8 \<Longrightarrow> isBlank s \<Longrightarrow> isBlank (s @ w)"
proof -
  assume w: "w \<in> set whiteSpaceUtf8" and "isBlank s"
  then obtain ws where ws: "set ws \<subseteq> set whiteSpaceUtf8" "s = concat ws"
    by (auto simp add: isBlank_def)
  with w have "set (ws @ [w]) \<subseteq> set whiteSpaceUtf8 \<and> s @ w = concat (ws @ [w])" by simp
  then show "isBlank (s @ w)" unfolding isBlank_def by blast
qed

lemma leadingWhiteSpace_trimStart: "leadingWhiteSpace (trimStart s) = None"
proof (induction s rule: trimStart.induct)
  case (1 s)
  show ?case
  proof (cases "leadingWhiteSpace s")
    case None
    then show ?thesis by (simp add: trimStart_None)
  next
    case (Some w)
    with 1 show ?thesis by (simp add: trimStart_Some)
  qed
qed

lemma trimStart_Nil_blank: "trimStart s = [] \<Longrightarrow> isBlank s"
proof (induction s rule: trimStart.induct)
  case (1 s)
  show ?case
  proof (cases "leadingWhiteSpace s")
    case None
    with "1.prems" show ?thesis by (simp add: trimStart_None isBlank_Nil)
  next
    case (Some w)
    with "1.prems" have "trimStart (drop (length w) s) = []" by (simp add: trimStart_Some)
    with "1.IH" Some have "isBlank (drop (length w) s)" by simp
    with leadingWhiteSpace_Some [OF Some] isBlank_Cons [of w "drop (length w) s"]
    show ?thesis by simp
  qed
qed

lemma trimEnd_Nil_blank: "trimEnd s = [] \<Longrightarrow> isBlank s"
proof (induction s rule: trimEnd.induct)
  case (1 s)
  show ?case
  proof (cases "trailingWhiteSpace s")
    case None
    with "1.prems" show ?thesis by (simp add: trimEnd_None isBlank_Nil)
  next
    case (Some w)
    with "1.prems" have "trimEnd (take (length s - length w) s) = []" by (simp add: trimEnd_Some)
    with "1.IH" Some have "isBlank (take (length s - length w) s)" by simp
    with trailingWhiteSpace_Some [OF Some] isBlank_snoc [of w "take (length s - length w) s"]
    show ?thesis by simp
  qed
qed

lemma blank_trimStart: "set ws \<subseteq> set whiteSpaceUtf8 \<Longrightarrow> trimStart (concat ws) = []"
proof (induction ws)
  case Nil
  have "leadingWhiteSpace [] = None"
    by (auto simp add: leadingWhiteSpace_def find_None_iff dest: whiteSpace_nonempty)
  then show ?case by (simp add: trimStart_None)
next
  case (Cons w ws)
  then have "leadingWhiteSpace (w @ concat ws) = Some w"
    by (simp add: leadingWhiteSpace_append)
  from trimStart_Some [OF this] Cons show ?case by simp
qed

lemma blank_leading:
  assumes "isBlank s" "s \<noteq> []"
  shows "leadingWhiteSpace s \<noteq> None"
proof -
  from assms(1) obtain ws where ws: "set ws \<subseteq> set whiteSpaceUtf8" "s = concat ws"
    by (auto simp add: isBlank_def)
  with assms(2) obtain w ws' where "ws = w # ws'" by (cases ws) auto
  with ws have "w \<in> set whiteSpaceUtf8" "s = w @ concat ws'" by simp_all
  then show ?thesis by (simp add: leadingWhiteSpace_append)
qed

lemma trimEnd_Nil: "trimEnd [] = []"
proof -
  have "trailingWhiteSpace [] = None"
    by (auto simp add: trailingWhiteSpace_def find_None_iff dest: whiteSpace_nonempty)
  then show ?thesis by (rule trimEnd_None)
qed

lemma trim_Nil_iff: "trim p = [] \<longleftrightarrow> isBlank p"
proof
  assume "isBlank p"
  then have "trimStart p = []" by (auto simp add: isBlank_def blank_trimStart)
  then show "trim p = []" by (simp add: trim_def trimEnd_Nil)
next
  assume "trim p = []"
  then have b: "isBlank (trimStart p)" unfolding trim_def by (rule trimEnd_Nil_blank)
  have "trimStart p = []"
  proof (rule ccontr)
    assume "trimStart p \<noteq> []"
    with b have "leadingWhiteSpace (trimStart p) \<noteq> None" by (rule blank_leading)
    then show False by (simp add: leadingWhiteSpace_trimStart)
  qed
  then show "isBlank p" by (rule trimStart_Nil_blank)
qed


lemma toLowerChar_eq_iff: "toLowerChar x = toLowerChar y \<longleftrightarrow> sameLetter x y"
proof -
  have inj: "\<And>a b :: char. (a = b) = ((of_char a :: nat) = of_char b)" by simp
  have up: "\<And>c. isUpperAscii c \<Longrightarrow> (of_char (toLowerChar c) :: nat) = of_char c + 32"
    by (simp add: toLowerChar_def isUpperAscii_def)
  have lo: "\<And>c. \<not> isUpperAscii c \<Longrightarrow> toLowerChar c = c"
    by (auto simp add: toLowerChar_def isUpperAscii_def)
  show ?thesis
  proof (cases "isUpperAscii x"; cases "isUpperAscii y")
    assume a: "isUpperAscii x" "isUpperAscii y"
    then have "(toLowerChar x = toLowerChar y) = ((of_char x :: nat) = of_char y)"
      by (simp add: inj [of "toLowerChar x"] up)
    also have "\<dots> = sameLetter x y"
      using a by (auto simp add: sameLetter_def isUpperAscii_def)
    finally show ?thesis .
  next
    assume a: "isUpperAscii x" "\<not> isUpperAscii y"
    then have "(toLowerChar x = toLowerChar y) = ((of_char x :: nat) + 32 = of_char y)"
      by (simp add: inj [of "toLowerChar x"] up lo)
    also have "\<dots> = sameLetter x y"
      using a by (auto simp add: sameLetter_def)
    finally show ?thesis .
  next
    assume a: "\<not> isUpperAscii x" "isUpperAscii y"
    then have "(toLowerChar x = toLowerChar y) = ((of_char x :: nat) = of_char y + 32)"
      by (simp add: inj [of x] up lo)
    also have "\<dots> = sameLetter x y"
      using a by (auto simp add: sameLetter_def)
    finally show ?thesis .
  next
    assume a: "\<not> isUpperAscii x" "\<not> isUpperAscii y"
    then show ?thesis by (simp add: lo sameLetter_def)
  qed
qed

lemma asciiToLowerCase_eq_iff:
  "asciiToLowerCase a = asciiToLowerCase b \<longleftrightarrow> equalIgnoringCase a b"
proof -
  have "(map toLowerChar a = map toLowerChar b) =
      list_all2 (=) (map toLowerChar a) (map toLowerChar b)"
    by (simp add: list.rel_eq)
  also have "\<dots> = list_all2 (\<lambda>x y. toLowerChar x = toLowerChar y) a b"
    by (simp add: list.rel_map)
  also have "\<dots> = list_all2 sameLetter a b"
    by (simp add: toLowerChar_eq_iff)
  finally show ?thesis
    by (simp add: asciiToLowerCase_def equalIgnoringCase_def)
qed

lemma runtime_asciiToLowerCase: "runtime_toLowerCase asciiToLowerCase"
  by (simp add: runtime_toLowerCase_def asciiToLowerCase_def)

lemma pNormalized_Nil_iff:
  "runtime_toLowerCase toLowerCase \<Longrightarrow> toLowerCase (trim p) = [] \<longleftrightarrow> isBlank p"
  by (simp add: runtime_toLowerCase_def trim_Nil_iff)

lemma listTasksByPriority_eq:
  assumes "runtime_toLowerCase toLowerCase"
  shows "listTasksByPriority toLowerCase s p =
     (if isBlank p then []
      else filter (\<lambda>t. toLowerCase (priority t) = toLowerCase (trim p)) (tasks s))"
  by (simp add: listTasksByPriority_def Let_def pNormalized_Nil_iff [OF assms])

lemma listTasksByPriority_ascii:
  assumes rt: "runtime_toLowerCase toLowerCase"
    and p: "list_all isAscii (trim p)"
    and ts: "list_all (\<lambda>t. list_all isAscii (priority t)) (tasks s)"
  shows "listTasksByPriority toLowerCase s p =
     (if isBlank p then [] else filter (\<lambda>t. equalIgnoringCase (priority t) (trim p)) (tasks s))"
proof -
  have "filter (\<lambda>t. toLowerCase (priority t) = toLowerCase (trim p)) (tasks s) =
      filter (\<lambda>t. equalIgnoringCase (priority t) (trim p)) (tasks s)"
  proof (rule filter_cong [OF refl])
    fix t assume "t \<in> set (tasks s)"
    with ts have "list_all isAscii (priority t)" by (simp add: list_all_iff)
    with rt p have "toLowerCase (priority t) = asciiToLowerCase (priority t)"
      "toLowerCase (trim p) = asciiToLowerCase (trim p)"
      by (simp_all add: runtime_toLowerCase_def)
    then show "(toLowerCase (priority t) = toLowerCase (trim p)) =
        equalIgnoringCase (priority t) (trim p)"
      by (simp add: asciiToLowerCase_eq_iff)
  qed
  then show ?thesis by (simp add: listTasksByPriority_eq [OF rt])
qed

lemma blank_instances: "isBlank []" "isBlank ''   ''"
proof -
  show "isBlank []" by (rule isBlank_Nil)
  have "[CHR 0x20] \<in> set whiteSpaceUtf8" by (simp add: whiteSpaceUtf8_def)
  from isBlank_Cons [OF this isBlank_Cons [OF this isBlank_Cons [OF this isBlank_Nil]]]
  show "isBlank ''   ''" by simp
qed

lemma nbspHigh_facts:
  "trim nbspHigh = ''hIgh''"
  "list_all isAscii ''hIgh''"
  "list_all (\<lambda>t. list_all isAscii (priority t)) (tasks priorityDay)"
  "filter (\<lambda>t. equalIgnoringCase (priority t) ''hIgh'') (tasks priorityDay) =
     [(exampleTask ''b'' ''Review'' 600 660)\<lparr>priority := ''High''\<rparr>,
      (exampleTask ''c'' ''Lunch'' 720 780)\<lparr>priority := ''HIGH''\<rparr>]"
  by code_simp+

lemma nbspHigh_not_blank: "isBlank nbspHigh = False"
  using trim_Nil_iff [of nbspHigh] by (simp add: nbspHigh_facts(1))

text \<open>
  Claim C8. For every lower-casing function with the two properties of the runtime's,
  every schedule and every argument, \<open>listTasksByPriority\<close> returns the empty
  sequence when the argument is empty or blank, and otherwise exactly the tasks, in
  schedule order, whose priority lower-cased equals the trimmed argument lower-cased.
  When the trimmed argument and the priorities are ASCII, these are the tasks whose
  priority equals the trimmed argument without regard to case, letter by letter. On a
  schedule with the priorities Low, High and HIGH, the argument U+00A0 \<open>hIgh\<close> space
  yields the second and the third task.
\<close>

theorem listTasksByPriority_filter:
  assumes "runtime_toLowerCase toLowerCase"
  shows "listTasksByPriority toLowerCase s p =
           (if isBlank p then []
            else filter (\<lambda>t. toLowerCase (priority t) = toLowerCase (trim p)) (tasks s)) \<and>
         (list_all isAscii (trim p) \<and> list_all (\<lambda>t. list_all isAscii (priority t)) (tasks s) \<longrightarrow>
          listTasksByPriority toLowerCase s p =
            (if isBlank p then []
             else filter (\<lambda>t. equalIgnoringCase (priority t) (trim p)) (tasks s))) \<and>
         subseq (listTasksByPriority toLowerCase s p) (tasks s) \<and>
         listTasksByPriority toLowerCase s [] = [] \<and>
         listTasksByPriority toLowerCase s ''   '' = [] \<and>
         listTasksByPriority toLowerCase priorityDay nbspHigh =
           [(exampleTask ''b'' ''Review'' 600 660)\<lparr>priority := ''High''\<rparr>,
            (exampleTask ''c'' ''Lunch'' 720 780)\<lparr>priority := ''HIGH''\<rparr>]"
proof -
  note a = listTasksByPriority_eq [OF assms]
  have b: "list_all isAscii (trim p) \<and> list_all (\<lambda>t. list_all isAscii (priority t)) (tasks s) \<longrightarrow>
          listTasksByPriority toLowerCase s p =
            (if isBlank p then []
             else filter (\<lambda>t. equalIgnoringCase (priority t) (trim p)) (tasks s))"
    using listTasksByPriority_ascii [OF assms] by blast
  have c: "subseq (listTasksByPriority toLowerCase s p) (tasks s)"
    unfolding a by simp
  have d: "listTasksByPriority toLowerCase s [] = []" "listTasksByPriority toLowerCase s ''   '' = []"
    unfolding a by (simp_all add: blank_instances)
  have e: "listTasksByPriority toLowerCase priorityDay nbspHigh =
           [(exampleTask ''b'' ''Review'' 600 660)\<lparr>priority := ''High''\<rparr>,
            (exampleTask ''c'' ''Lunch'' 720 780)\<lparr>priority := ''HIGH''\<rparr>]"
  proof -
    have p': "list_all isAscii (trim nbspHigh)"
      unfolding nbspHigh_facts(1) by (rule nbspHigh_facts(2))
    from listTasksByPriority_ascii [OF assms p' nbspHigh_facts(3)] show ?thesis
      by (simp only: nbspHigh_not_blank if_False nbspHigh_facts(1) nbspHigh_facts(4))
  qed
  from a b c d e show ?thesis by (intro conjI)
qed

theorem listTasksByPriority_filter_witness:
  "runtime_toLowerCase asciiToLowerCase \<and>
   listTasksByPriority asciiToLowerCase priorityDay nbspHigh =
     [(exampleTask ''b'' ''Review'' 600 660)\<lparr>priority := ''High''\<rparr>,
      (exampleTask ''c'' ''Lunch'' 720 780)\<lparr>priority := ''HIGH''\<rparr>] \<and>
   listTasksByPriority asciiToLowerCase priorityDay ''low'' = [exampleTask ''a'' ''Standup'' 540 600] \<and>
   listTasksByPriority asciiToLowerCase priorityDay [] = []"
proof -
  note t = listTasksByPriority_filter [OF runtime_asciiToLowerCase, of priorityDay "''low''"]
  have l: "trim ''low'' = ''low''" "list_all isAscii ''low''"
    "list_all (\<lambda>t. list_all isAscii (priority t)) (tasks priorityDay)"
    "filter (\<lambda>t. equalIgnoringCase (priority t) ''low'') (tasks priorityDay) =
       [exampleTask ''a'' ''Standup'' 540 600]"
    by code_simp+
  have nb: "isBlank ''low'' = False" using trim_Nil_iff [of "''low''"] by (simp add: l(1))
  have p': "list_all isAscii (trim ''low'')" unfolding l(1) by (rule l(2))
  from t have "list_all isAscii (trim ''low'') \<and>
      list_all (\<lambda>t. list_all isAscii (priority t)) (tasks priorityDay) \<longrightarrow>
      listTasksByPriority asciiToLowerCase priorityDay ''low'' =
        (if isBlank ''low'' then []
         else filter (\<lambda>t. equalIgnoringCase (priority t) (trim ''low'')) (tasks priorityDay))"
    by (rule conjunct2 [THEN conjunct1])
  with p' l(3) have "listTasksByPriority asciiToLowerCase priorityDay ''low'' =
        (if isBlank ''low'' then []
         else filter (\<lambda>t. equalIgnoringCase (priority t) (trim ''low'')) (tasks priorityDay))"
    by blast
  then have low: "listTasksByPriority asciiToLowerCase priorityDay ''low'' =
      [exampleTask ''a'' ''Standup'' 540 600]"
    by (simp only: nb if_False l(1) l(4))
  from t have hi: "listTasksByPriority asciiToLowerCase priorityDay nbspHigh =
     [(exampleTask ''b'' ''Review'' 600 660)\<lparr>priority := ''High''\<rparr>,
      (exampleTask ''c'' ''Lunch'' 720 780)\<lparr>priority := ''HIGH''\<rparr>]"
    and em: "listTasksByPriority asciiToLowerCase priorityDay [] = []"
    by blast+
  from runtime_asciiToLowerCase hi low em show ?thesis by (intro conjI)
qed

section \<open>A conflicting add\<close>

lemma effects_conflict:
  "saved (snd (addTask_conflict s n)) = saved s"
  "observers (snd (addTask_conflict s n)) = observers s"
  "delivered (snd (addTask_conflict s n)) =
     delivered s @ map (\<lambda>ob. (ob, addConflictMsg n)) (observers s)"
  "fst (addTask_conflict s n) = \<lparr>success = False, message = addConflictMsg n\<rparr>"
  by (simp_all add: addTask_conflict_def Let_def notify_def Logger_info_def)

lemma addTask_on_conflict:
  "neighbour_conflict (tasks s) task \<Longrightarrow>
   addTask s task = addTask_conflict s (conflicting_neighbour (tasks s) task)"
  by (auto simp add: addTask_def neighbour_conflict_def conflicting_neighbour_def Let_def)

lemma conflicting_neighbour_overlaps:
  "neighbour_conflict ts t \<Longrightarrow>
   overlaps (startMinutes (conflicting_neighbour ts t)) (endMinutes (conflicting_neighbour ts t))
     (startMinutes t) (endMinutes t) \<and> conflicting_neighbour ts t \<in> set ts"
  using findInsertIndex_le [of ts "startMinutes t"]
  by (auto simp add: neighbour_conflict_def conflicting_neighbour_def Let_def)

lemma title_in_addConflictMsg: "sublist (title n) (addConflictMsg n)"
  unfolding addConflictMsg_def by (rule sublist_appendI)

lemma scenario_conflict:
  "success (fst (addTask (subscribe newScheduleManager 7) (exampleTask ''a'' ''Standup'' 540 600)))"
  "fst (addTask afterStandup (exampleTask ''b'' ''Overlap'' 570 630)) =
     \<lparr>success = False, message = standupConflictMessage\<rparr>"
  "tasks (snd (addTask afterStandup (exampleTask ''b'' ''Overlap'' 570 630))) =
     [exampleTask ''a'' ''Standup'' 540 600]"
  by code_simp+

lemma afterStandup_facts:
  "tasks afterStandup = [exampleTask ''a'' ''Standup'' 540 600]"
  "observers afterStandup = [7]"
  "\<exists>t\<in>set (tasks afterStandup). id' t = ''a''"
  "neighbour_conflict (tasks afterStandup) (exampleTask ''b'' ''Overlap'' 570 630)"
  "conflicting_neighbour (tasks afterStandup) (exampleTask ''b'' ''Overlap'' 570 630) =
     exampleTask ''a'' ''Standup'' 540 600"
  "addConflictMsg (exampleTask ''a'' ''Standup'' 540 600) = standupConflictMessage"
  by code_simp+

text \<open>
  Claim C5. When the predecessor or the successor at the insertion index overlaps the
  candidate, \<open>addTask\<close> fails with the conflict message of that neighbour (the
  predecessor first), a message that contains the neighbour's title; the task list and
  the persisted snapshots are as before, and the message is delivered to every
  subscribed observer. After adding \<open>[540, 600)\<close> "Standup", adding \<open>[570, 630)\<close>
  fails with a message naming "Standup" and the schedule still holds the first task only.
\<close>

theorem addTask_conflict_reported:
  assumes "neighbour_conflict (tasks s) task"
  shows "overlaps (startMinutes (conflicting_neighbour (tasks s) task))
           (endMinutes (conflicting_neighbour (tasks s) task))
           (startMinutes task) (endMinutes task) \<and>
         conflicting_neighbour (tasks s) task \<in> set (tasks s) \<and>
         fst (addTask s task) =
           \<lparr>success = False, message = addConflictMsg (conflicting_neighbour (tasks s) task)\<rparr> \<and>
         sublist (title (conflicting_neighbour (tasks s) task)) (message (fst (addTask s task))) \<and>
         tasks (snd (addTask s task)) = tasks s \<and>
         saved (snd (addTask s task)) = saved s \<and>
         delivered (snd (addTask s task)) =
           delivered s @
           map (\<lambda>ob. (ob, addConflictMsg (conflicting_neighbour (tasks s) task))) (observers s) \<and>
         success (fst (addTask (subscribe newScheduleManager 7) (exampleTask ''a'' ''Standup'' 540 600))) \<and>
         fst (addTask afterStandup (exampleTask ''b'' ''Overlap'' 570 630)) =
           \<lparr>success = False, message = standupConflictMessage\<rparr> \<and>
         sublist ''Standup'' standupConflictMessage \<and>
         tasks (snd (addTask afterStandup (exampleTask ''b'' ''Overlap'' 570 630))) =
           [exampleTask ''a'' ''Standup'' 540 600]"
proof -
  note c = addTask_on_conflict [OF assms]
  have n: "sublist ''Standup'' standupConflictMessage"
    unfolding standupConflictMessage_def
    using sublist_appendI [of "''Standup''" \<open>''Task conflicts with existing task "''\<close> \<open>''" (09:00-10:00).''\<close>]
    by simp
  show ?thesis
    unfolding c
    using conflicting_neighbour_overlaps [OF assms] title_in_addConflictMsg scenario_conflict n
    by (simp add: effects_conflict)
qed

theorem addTask_conflict_reported_witness:
  "neighbour_conflict (tasks afterStandup) (exampleTask ''b'' ''Overlap'' 570 630) \<and>
   fst (addTask afterStandup (exampleTask ''b'' ''Overlap'' 570 630)) =
     \<lparr>success = False, message = standupConflictMessage\<rparr> \<and>
   tasks (snd (addTask afterStandup (exampleTask ''b'' ''Overlap'' 570 630))) = tasks afterStandup \<and>
   saved (snd (addTask afterStandup (exampleTask ''b'' ''Overlap'' 570 630))) = saved afterStandup \<and>
   delivered (snd (addTask afterStandup (exampleTask ''b'' ''Overlap'' 570 630))) =
     delivered afterStandup @ [(7, standupConflictMessage)]"
proof -
  note t = addTask_conflict_reported [OF afterStandup_facts(4),
      unfolded afterStandup_facts(5) afterStandup_facts(6) afterStandup_facts(2)]
  from t have a: "fst (addTask afterStandup (exampleTask ''b'' ''Overlap'' 570 630)) =
       \<lparr>success = False, message = standupConflictMessage\<rparr>"
    and b: "tasks (snd (addTask afterStandup (exampleTask ''b'' ''Overlap'' 570 630))) = tasks afterStandup"
    and c: "saved (snd (addTask afterStandup (exampleTask ''b'' ''Overlap'' 570 630))) = saved afterStandup"
    and d: "delivered (snd (addTask afterStandup (exampleTask ''b'' ''Overlap'' 570 630))) =
       delivered afterStandup @ map (\<lambda>ob. (ob, standupConflictMessage)) [7]"
    by blast+
  from d have d': "delivered (snd (addTask afterStandup (exampleTask ''b'' ''Overlap'' 570 630))) =
     delivered afterStandup @ [(7, standupConflictMessage)]"
    by simp
  from afterStandup_facts(4) a b c d' show ?thesis by (intro conjI)
qed

section \<open>Edit as removal and re-insertion\<close>

lemma insort_key_split:
  "\<forall>a\<in>set as. f a < f x \<Longrightarrow> \<forall>b\<in>set bs. f x \<le> f b \<Longrightarrow>
   insort_key f x (as @ bs) = as @ x # bs"
proof (induction as)
  case Nil
  then show ?case by (cases bs) simp_all
next
  case (Cons a as)
  then have "\<not> f x \<le> f a" by auto
  with Cons show ?case by simp
qed

lemma insert_at_insort:
  assumes "sorted (map startMinutes ts)"
  shows "insert_at ts t = insort_key startMinutes t ts"
proof -
  let ?i = "findInsertIndex ts (startMinutes t)"
  have "insort_key startMinutes t (take ?i ts @ drop ?i ts) = take ?i ts @ t # drop ?i ts"
    using take_before [OF assms] drop_after [OF assms] by (intro insort_key_split) auto
  then show ?thesis by (simp add: insert_at_def)
qed

lemma saved_editTask_conflict: "saved (snd (editTask_conflict s n)) = saved s"
  by (simp add: editTask_conflict_def Let_def notify_def Logger_info_def)

lemma saved_editTask:
  "findIndex (\<lambda>t. id' t = i) (tasks s) = Some idx \<Longrightarrow>
   neighbour_conflict (remove_at idx (tasks s)) (updatedCopy (tasks s ! idx) u) \<Longrightarrow>
   saved (snd (editTask s i u)) = saved s"
  by (auto simp add: editTask_def neighbour_conflict_def remove_at_def Let_def
      editTask_insertIdx_eq saved_editTask_conflict)

lemma scenario_edit:
  "success (fst (addTask afterStandup (exampleTask ''c'' ''Lunch'' 660 720)))"
  "success (fst (editTask twoTasks ''a'' (moveTo 600 660)))"
  "tasks (snd (editTask twoTasks ''a'' (moveTo 600 660))) =
     [exampleTask ''a'' ''Standup'' 600 660, exampleTask ''c'' ''Lunch'' 660 720]"
  "success (fst (editTask twoTasks ''a'' (moveTo 550 610)))"
  by code_simp+

text \<open>
  Claim C2. On a sorted schedule that contains a task with the given id, \<open>editTask\<close>
  builds a candidate with the id, the \<open>completed\<close> flag and \<open>createdAt\<close> of the
  original, every omitted field keeping its value, and runs the neighbour check of
  \<open>addTask\<close> on the collection without the original. On a conflict it fails and the
  task list and the persisted snapshots are as before; otherwise it succeeds and the task
  list is the collection without the original, with the candidate inserted in start
  order. After adding \<open>[540, 600)\<close> and \<open>[660, 720)\<close>, moving the first task to
  \<open>[600, 660)\<close> succeeds, and so does moving it to \<open>[550, 610)\<close>, which overlaps
  only its own old slot.
\<close>

theorem editTask_reinserts:
  assumes "sorted (map startMinutes (tasks s))" and "\<exists>t\<in>set (tasks s). id' t = i"
  shows "(\<exists>idx. findIndex (\<lambda>t. id' t = i) (tasks s) = Some idx \<and> id' (tasks s ! idx) = i \<and>
           id' (updatedCopy (tasks s ! idx) u) = i \<and>
           completed (updatedCopy (tasks s ! idx) u) = completed (tasks s ! idx) \<and>
           createdAt (updatedCopy (tasks s ! idx) u) = createdAt (tasks s ! idx) \<and>
           title (updatedCopy (tasks s ! idx) u) =
             (case u_title u of None \<Rightarrow> title (tasks s ! idx) | Some v \<Rightarrow> v) \<and>
           startMinutes (updatedCopy (tasks s ! idx) u) =
             (case u_startMinutes u of None \<Rightarrow> startMinutes (tasks s ! idx) | Some v \<Rightarrow> v) \<and>
           endMinutes (updatedCopy (tasks s ! idx) u) =
             (case u_endMinutes u of None \<Rightarrow> endMinutes (tasks s ! idx) | Some v \<Rightarrow> v) \<and>
           priority (updatedCopy (tasks s ! idx) u) =
             (case u_priority u of None \<Rightarrow> priority (tasks s ! idx) | Some v \<Rightarrow> v) \<and>
           description (updatedCopy (tasks s ! idx) u) =
             (case u_description u of None \<Rightarrow> description (tasks s ! idx) | Some v \<Rightarrow> Some v) \<and>
           (if neighbour_conflict (remove_at idx (tasks s)) (updatedCopy (tasks s ! idx) u)
            then \<not> success (fst (editTask s i u)) \<and>
                 tasks (snd (editTask s i u)) = tasks s \<and>
                 saved (snd (editTask s i u)) = saved s
            else success (fst (editTask s i u)) \<and>
                 tasks (snd (editTask s i u)) =
                   insort_key startMinutes (updatedCopy (tasks s ! idx) u) (remove_at idx (tasks s)))) \<and>
         (success (fst (addTask afterStandup (exampleTask ''c'' ''Lunch'' 660 720))) \<and>
          success (fst (editTask twoTasks ''a'' (moveTo 600 660))) \<and>
          tasks (snd (editTask twoTasks ''a'' (moveTo 600 660))) =
            [exampleTask ''a'' ''Standup'' 600 660, exampleTask ''c'' ''Lunch'' 660 720] \<and>
          success (fst (editTask twoTasks ''a'' (moveTo 550 610))))"
    (is "?general \<and> ?scenario")
proof -
  from findIndex_exists [OF assms(2)] obtain idx
    where idx: "findIndex (\<lambda>t. id' t = i) (tasks s) = Some idx" by blast
  from findIndex_Some [OF idx] have eq: "id' (tasks s ! idx) = i" by simp
  let ?orig = "tasks s ! idx"
  let ?cand = "updatedCopy ?orig u"
  let ?arr = "remove_at idx (tasks s)"
  have srt: "sorted (map startMinutes ?arr)" using assms(1) by (rule sorted_remove_at)
  have fields: "id' ?cand = i" "completed ?cand = completed ?orig" "createdAt ?cand = createdAt ?orig"
    "title ?cand = (case u_title u of None \<Rightarrow> title ?orig | Some v \<Rightarrow> v)"
    "startMinutes ?cand = (case u_startMinutes u of None \<Rightarrow> startMinutes ?orig | Some v \<Rightarrow> v)"
    "endMinutes ?cand = (case u_endMinutes u of None \<Rightarrow> endMinutes ?orig | Some v \<Rightarrow> v)"
    "priority ?cand = (case u_priority u of None \<Rightarrow> priority ?orig | Some v \<Rightarrow> v)"
    "description ?cand = (case u_description u of None \<Rightarrow> description ?orig | Some v \<Rightarrow> Some v)"
    using eq by (simp_all add: updatedCopy_def nullish_def)
  have outcome: "if neighbour_conflict ?arr ?cand
            then \<not> success (fst (editTask s i u)) \<and>
                 tasks (snd (editTask s i u)) = tasks s \<and>
                 saved (snd (editTask s i u)) = saved s
            else success (fst (editTask s i u)) \<and>
                 tasks (snd (editTask s i u)) = insort_key startMinutes ?cand ?arr"
    using idx saved_editTask [OF idx, of u] insert_at_insort [OF srt, of ?cand]
    by (simp add: success_editTask tasks_editTask)
  have g: ?general
    using idx eq fields outcome by (intro exI [of _ idx] conjI)
  have sc: ?scenario
    using scenario_edit by (intro conjI)
  from g sc show ?thesis by (rule conjI)
qed

lemma twoTasks_facts:
  "sorted (map startMinutes (tasks twoTasks))"
  "\<exists>t\<in>set (tasks twoTasks). id' t = ''a''"
  "findIndex (\<lambda>t. id' t = ''a'') (tasks twoTasks) = Some 0"
  "\<not> neighbour_conflict (remove_at 0 (tasks twoTasks)) (updatedCopy (tasks twoTasks ! 0) (moveTo 600 660))"
  "insort_key startMinutes (updatedCopy (tasks twoTasks ! 0) (moveTo 600 660)) (remove_at 0 (tasks twoTasks)) =
     [exampleTask ''a'' ''Standup'' 600 660, exampleTask ''c'' ''Lunch'' 660 720]"
  by code_simp+

theorem editTask_reinserts_witness:
  "sorted (map startMinutes (tasks twoTasks)) \<and> (\<exists>t\<in>set (tasks twoTasks). id' t = ''a'') \<and>
   success (fst (editTask twoTasks ''a'' (moveTo 600 660))) \<and>
   tasks (snd (editTask twoTasks ''a'' (moveTo 600 660))) =
     insort_key startMinutes (updatedCopy (tasks twoTasks ! 0) (moveTo 600 660))
       (remove_at 0 (tasks twoTasks))"
proof -
  note t = editTask_reinserts [OF twoTasks_facts(1) twoTasks_facts(2), of "moveTo 600 660"]
  from t obtain idx where idx: "findIndex (\<lambda>t. id' t = ''a'') (tasks twoTasks) = Some idx"
    and out: "if neighbour_conflict (remove_at idx (tasks twoTasks))
                   (updatedCopy (tasks twoTasks ! idx) (moveTo 600 660))
            then \<not> success (fst (editTask twoTasks ''a'' (moveTo 600 660))) \<and>
                 tasks (snd (editTask twoTasks ''a'' (moveTo 600 660))) = tasks twoTasks \<and>
                 saved (snd (editTask twoTasks ''a'' (moveTo 600 660))) = saved twoTasks
            else success (fst (editTask twoTasks ''a'' (moveTo 600 660))) \<and>
                 tasks (snd (editTask twoTasks ''a'' (moveTo 600 660))) =
                   insort_key startMinutes (updatedCopy (tasks twoTasks ! idx) (moveTo 600 660))
                     (remove_at idx (tasks twoTasks))"
    by blast
  from idx have i0: "idx = 0" unfolding twoTasks_facts(3) by simp
  from out have "success (fst (editTask twoTasks ''a'' (moveTo 600 660))) \<and>
      tasks (snd (editTask twoTasks ''a'' (moveTo 600 660))) =
        insort_key startMinutes (updatedCopy (tasks twoTasks ! 0) (moveTo 600 660))
          (remove_at 0 (tasks twoTasks))"
    unfolding i0 using twoTasks_facts(4) by simp
  with twoTasks_facts(1) twoTasks_facts(2) show ?thesis by (intro conjI) simp_all
qed

section \<open>Edit and completion on the one-task schedule\<close>

text \<open>The statements on edits without a duration check and on completion, at the
  schedule that holds the task \<open>[540, 600)\<close> "Standup" alone.\<close>

theorem editTask_no_duration_check_witness:
  "tasks afterStandup = [exampleTask ''a'' ''Standup'' 540 600] \<and>
   endMinutes (exampleTask ''a'' ''Standup'' 540 600) \<le> 700 \<and>
   success (fst (editTask afterStandup ''a'' (onlyStart 700))) \<and>
   tasks (snd (editTask afterStandup ''a'' (onlyStart 700))) = [exampleTask ''a'' ''Standup'' 700 600]"
proof -
  have h: "endMinutes (exampleTask ''a'' ''Standup'' 540 600) \<le> 700"
    by (simp add: exampleTask_def)
  have i: "id' (exampleTask ''a'' ''Standup'' 540 600) = ''a''"
    and e: "(exampleTask ''a'' ''Standup'' 540 600)\<lparr>startMinutes := 700\<rparr> =
        exampleTask ''a'' ''Standup'' 700 600"
    by (simp_all add: exampleTask_def)
  note t = editTask_no_duration_check [OF afterStandup_facts(1) h, unfolded i e]
  from t have "success (fst (editTask afterStandup ''a'' (onlyStart 700)))"
    by (rule conjunct1)
  moreover from t have "tasks (snd (editTask afterStandup ''a'' (onlyStart 700))) =
      [exampleTask ''a'' ''Standup'' 700 600]"
    by (rule conjunct2 [THEN conjunct1])
  ultimately show ?thesis using afterStandup_facts(1) h by (intro conjI)
qed

theorem markCompleted_idempotent_witness:
  "(\<exists>t\<in>set (tasks afterStandup). id' t = ''a'') \<and>
   success (fst (markCompleted afterStandup ''a'')) \<and>
   map completed (tasks (snd (markCompleted afterStandup ''a''))) = [True] \<and>
   success (fst (markCompleted (snd (markCompleted afterStandup ''a'')) ''a'')) \<and>
   tasks (snd (markCompleted (snd (markCompleted afterStandup ''a'')) ''a'')) =
     tasks (snd (markCompleted afterStandup ''a''))"
proof -
  note t = markCompleted_idempotent [OF afterStandup_facts(3)]
  from t have a: "success (fst (markCompleted afterStandup ''a''))"
    and b: "success (fst (markCompleted (snd (markCompleted afterStandup ''a'')) ''a''))"
    and c: "tasks (snd (markCompleted (snd (markCompleted afterStandup ''a'')) ''a'')) =
       tasks (snd (markCompleted afterStandup ''a''))"
    by blast+
  have d: "map completed (tasks (snd (markCompleted afterStandup ''a''))) = [True]"
    by code_simp
  from afterStandup_facts(3) a d b c show ?thesis by (intro conjI)
qed

end
